theory Spec2Isabelle
  imports Main "HOL-Library.Word" "HOL-Library.Sublist"
begin

unbundle bit_operations_syntax

section \<open>Constants of the I2C core\<close>

text \<open>
  The errno values come from the kernel's errno headers, the flag bits from
  \<^verbatim>\<open>i2c.h\<close> and the address offsets from the top of the core file.
  A C \<^verbatim>\<open>int\<close> that is only compared is an \<^typ>\<open>int\<close>; the 16-bit
  fields (\<^verbatim>\<open>unsigned short\<close>, \<^verbatim>\<open>u16\<close>) are \<^typ>\<open>16 word\<close>.
  A C name with two leading underscores is written with the prefix \<open>uu_\<close>
  (\<^verbatim>\<open>__i2c_transfer\<close> is \<open>uu_i2c_transfer\<close>).
\<close>

definition ENOMEM :: int where "ENOMEM = 12"
definition EAGAIN :: int where "EAGAIN = 11"
definition EBUSY :: int where "EBUSY = 16"
definition EINVAL :: int where "EINVAL = 22"
definition EOPNOTSUPP :: int where "EOPNOTSUPP = 95"
definition ESHUTDOWN :: int where "ESHUTDOWN = 108"

lemmas errno_defs = ENOMEM_def EAGAIN_def EBUSY_def EINVAL_def EOPNOTSUPP_def ESHUTDOWN_def

definition I2C_CLIENT_TEN :: "16 word" where "I2C_CLIENT_TEN = 0x10"
definition I2C_CLIENT_SLAVE :: "16 word" where "I2C_CLIENT_SLAVE = 0x20"

definition I2C_ADDR_OFFSET_TEN_BIT :: "16 word" where "I2C_ADDR_OFFSET_TEN_BIT = 0xa000"
definition I2C_ADDR_OFFSET_SLAVE :: "16 word" where "I2C_ADDR_OFFSET_SLAVE = 0x1000"

section \<open>Address space\<close>

text \<open>The fields of \<^verbatim>\<open>struct i2c_client\<close> that the address checks read.\<close>

record i2c_client =
  client_flags :: "16 word"
  client_addr :: "16 word"
  client_name :: string

text \<open>
  \<^verbatim>\<open>i2c_encode_flags_to_addr\<close>: the address with an offset or-ed in for the
  ten-bit flag and for the slave flag.
\<close>

definition i2c_encode_flags_to_addr :: "i2c_client \<Rightarrow> 16 word" where
  "i2c_encode_flags_to_addr client =
     (let addr = client_addr client;
          addr = (if client_flags client AND I2C_CLIENT_TEN \<noteq> 0
                  then addr OR I2C_ADDR_OFFSET_TEN_BIT else addr);
          addr = (if client_flags client AND I2C_CLIENT_SLAVE \<noteq> 0
                  then addr OR I2C_ADDR_OFFSET_SLAVE else addr)
      in addr)"

text \<open>
  \<^verbatim>\<open>i2c_check_addr_validity\<close>: the permissive check. The address parameter is an
  \<^verbatim>\<open>unsigned int\<close>; every caller passes a 16-bit address.
\<close>

definition i2c_check_addr_validity :: "16 word \<Rightarrow> 16 word \<Rightarrow> int" where
  "i2c_check_addr_validity addr flags =
     (if flags AND I2C_CLIENT_TEN \<noteq> 0
      then (if addr > 0x3ff then - EINVAL else 0)
      else (if addr = 0x00 \<or> addr > 0x7f then - EINVAL else 0))"

text \<open>\<^verbatim>\<open>i2c_check_7bit_addr_validity_strict\<close>: the check used when probing.\<close>

definition i2c_check_7bit_addr_validity_strict :: "16 word \<Rightarrow> int" where
  "i2c_check_7bit_addr_validity_strict addr =
     (if addr < 0x08 \<or> addr > 0x77 then - EINVAL else 0)"

text \<open>The client that \<^verbatim>\<open>i2c_new_client_device\<close> fills in from a board info.\<close>

record i2c_board_info =
  info_type :: string
  info_flags :: "16 word"
  info_addr :: "16 word"
  info_swnode :: bool

definition client_of_info :: "i2c_board_info \<Rightarrow> i2c_client" where
  "client_of_info info =
     \<lparr>client_flags = info_flags info, client_addr = info_addr info, client_name = info_type info\<rparr>"

section \<open>Device hierarchy\<close>

text \<open>
  The driver-model devices below one root adapter. An adapter's device has children:
  clients, the adapters of mux channels (whose parent device is the adapter they hang
  off), and devices of other types. The address checks never look below a device that
  is not an adapter, so clients and other devices are leaves. An adapter is named by
  its position: the list of child indices that leads to it from the root.
\<close>

datatype device = I2C_Adapter "device list" | I2C_Client i2c_client | Other_Device

fun children :: "device \<Rightarrow> device list" where
  "children (I2C_Adapter ds) = ds"
| "children (I2C_Client c) = []"
| "children Other_Device = []"

text \<open>\<^verbatim>\<open>i2c_verify_client\<close>: the client behind a device of the client type.\<close>

definition i2c_verify_client :: "device \<Rightarrow> i2c_client option" where
  "i2c_verify_client dev = (case dev of I2C_Client client \<Rightarrow> Some client | _ \<Rightarrow> None)"

text \<open>
  Modelled from the spec: \<^verbatim>\<open>device_for_each_child\<close> of the driver core, which is
  not among the sources. The spec has the busy check go over "each ancestor's direct
  children" and stop at a match: the callback runs on the children in order, and the
  first non-zero result ends the walk and is returned.
\<close>

fun for_each_child :: "device list \<Rightarrow> (device \<Rightarrow> int) \<Rightarrow> int" where
  "for_each_child [] fn = 0"
| "for_each_child (child # rest) fn =
     (let error = fn child in if error \<noteq> 0 then error else for_each_child rest fn)"

definition device_for_each_child :: "device \<Rightarrow> (device \<Rightarrow> int) \<Rightarrow> int" where
  "device_for_each_child parent fn = for_each_child (children parent) fn"

lemma for_each_child_cong [fundef_cong]:
  "ds = es \<Longrightarrow> (\<And>d. d \<in> set es \<Longrightarrow> f d = g d) \<Longrightarrow> for_each_child ds f = for_each_child es g"
  by (induction es arbitrary: ds) (auto simp: Let_def)

lemma device_for_each_child_cong [fundef_cong]:
  "p = q \<Longrightarrow> (\<And>d. d \<in> set (children q) \<Longrightarrow> f d = g d) \<Longrightarrow>
   device_for_each_child p f = device_for_each_child q g"
  unfolding device_for_each_child_def by (rule for_each_child_cong) auto

text \<open>
  \<^verbatim>\<open>__i2c_check_addr_busy\<close>: the callback on one device. The address is an
  \<^verbatim>\<open>int\<close>; the client's encoded address is promoted to it.
\<close>

definition uu_i2c_check_addr_busy :: "device \<Rightarrow> int \<Rightarrow> int" where
  "uu_i2c_check_addr_busy dev addr =
     (case i2c_verify_client dev of
        Some client \<Rightarrow> if uint (i2c_encode_flags_to_addr client) = addr then - EBUSY else 0
      | None \<Rightarrow> 0)"

text \<open>\<^verbatim>\<open>i2c_check_mux_children\<close>: recurse down the mux tree.\<close>

fun i2c_check_mux_children :: "device \<Rightarrow> int \<Rightarrow> int" where
  "i2c_check_mux_children (I2C_Adapter ds) addr =
     device_for_each_child (I2C_Adapter ds) (\<lambda>child. i2c_check_mux_children child addr)"
| "i2c_check_mux_children dev addr = uu_i2c_check_addr_busy dev addr"

text \<open>
  The device at a position, and \<^verbatim>\<open>&adapter->dev\<close> for an adapter handle. A handle
  that leads nowhere is a dangling pointer in C; the theorems below assume the handle
  leads to a device.
\<close>

fun device_at :: "device \<Rightarrow> nat list \<Rightarrow> device option" where
  "device_at dev [] = Some dev"
| "device_at dev (i # path) =
     (if i < length (children dev) then device_at (children dev ! i) path else None)"

definition adapter_dev :: "device \<Rightarrow> nat list \<Rightarrow> device" where
  "adapter_dev root adapter = (case device_at root adapter of Some dev \<Rightarrow> dev | None \<Rightarrow> Other_Device)"

text \<open>
  \<^verbatim>\<open>i2c_parent_is_i2c_adapter\<close>, with \<^verbatim>\<open>CONFIG_I2C_MUX\<close> enabled: the parent
  device when it is an adapter. The root's parent is not an I2C device.
\<close>

definition i2c_parent_is_i2c_adapter :: "device \<Rightarrow> nat list \<Rightarrow> nat list option" where
  "i2c_parent_is_i2c_adapter root adapter =
     (if adapter = [] then None
      else (case device_at root (butlast adapter) of
              Some (I2C_Adapter ds) \<Rightarrow> Some (butlast adapter)
            | _ \<Rightarrow> None))"

lemma parent_shorter:
  "i2c_parent_is_i2c_adapter root adapter = Some parent \<Longrightarrow> length parent < length adapter"
  by (auto simp: i2c_parent_is_i2c_adapter_def split: if_splits option.splits device.splits)

text \<open>\<^verbatim>\<open>i2c_check_mux_parents\<close>: walk up the mux tree.\<close>

function i2c_check_mux_parents :: "device \<Rightarrow> nat list \<Rightarrow> int \<Rightarrow> int" where
  "i2c_check_mux_parents root adapter addr =
     (let parent = i2c_parent_is_i2c_adapter root adapter;
          result = device_for_each_child (adapter_dev root adapter)
                     (\<lambda>dev. uu_i2c_check_addr_busy dev addr)
      in (case parent of
            Some p \<Rightarrow> if result = 0 then i2c_check_mux_parents root p addr else result
          | None \<Rightarrow> result))"
  by pat_completeness auto
termination
  by (relation "measure (\<lambda>(root, adapter, addr). length adapter)") (auto dest: parent_shorter [OF sym])

text \<open>\<^verbatim>\<open>i2c_check_addr_busy\<close>: up through the parents, then down the subtree.\<close>

definition i2c_check_addr_busy :: "device \<Rightarrow> nat list \<Rightarrow> int \<Rightarrow> int" where
  "i2c_check_addr_busy root adapter addr =
     (let parent = i2c_parent_is_i2c_adapter root adapter;
          result = (case parent of Some p \<Rightarrow> i2c_check_mux_parents root p addr | None \<Rightarrow> 0)
      in if result = 0
         then device_for_each_child (adapter_dev root adapter)
                (\<lambda>dev. i2c_check_mux_children dev addr)
         else result)"

text \<open>A client is a child of the adapter at a position.\<close>

definition client_on :: "device \<Rightarrow> nat list \<Rightarrow> i2c_client \<Rightarrow> bool" where
  "client_on root adapter client =
     (case device_at root adapter of
        Some dev \<Rightarrow> I2C_Client client \<in> set (children dev)
      | None \<Rightarrow> False)"

section \<open>Client creation and removal\<close>

text \<open>
  Modelled from the spec: the pointer results of \<^verbatim>\<open>linux/err.h\<close>, which is not
  among the sources. The spec's operations yield a handle or an error kind; a kernel
  pointer is \<^verbatim>\<open>NULL\<close>, an error pointer carrying an errno, or a reference.
\<close>

datatype 'a ptr = NULL | ERR_PTR int | PTR 'a

definition IS_ERR_OR_NULL :: "'a ptr \<Rightarrow> bool" where
  "IS_ERR_OR_NULL p = (case p of PTR x \<Rightarrow> False | _ \<Rightarrow> True)"

text \<open>
  The state of one bus tree: the device hierarchy, and for each adapter (by handle) its
  \<^verbatim>\<open>addrs_in_instantiation\<close> bitmap as the set of the bits that are set.
\<close>

record i2c_bus =
  devices :: device
  addrs_in_instantiation :: "nat list \<Rightarrow> nat set"

text \<open>
  What the allocator and the driver core answer during one call of
  \<^verbatim>\<open>i2c_new_client_device\<close>: whether \<^verbatim>\<open>kzalloc\<close> returns memory, and the
  status of \<^verbatim>\<open>device_add_software_node\<close> and of \<^verbatim>\<open>device_register\<close>.
\<close>

record driver_core =
  kzalloc_ok :: bool
  device_add_software_node_status :: int
  device_register_status :: int

text \<open>
  \<^verbatim>\<open>i2c_lock_addr\<close> and \<^verbatim>\<open>i2c_unlock_addr\<close>: \<^verbatim>\<open>test_and_set_bit\<close> and
  \<^verbatim>\<open>clear_bit\<close> on the bitmap, for addresses without the ten-bit flag.
\<close>

definition i2c_lock_addr :: "i2c_bus \<Rightarrow> nat list \<Rightarrow> 16 word \<Rightarrow> 16 word \<Rightarrow> int \<times> i2c_bus" where
  "i2c_lock_addr s adap addr flags =
     (if flags AND I2C_CLIENT_TEN = 0
      then (if unat addr \<in> addrs_in_instantiation s adap then (- EBUSY, s)
            else (0, s\<lparr>addrs_in_instantiation :=
                        (addrs_in_instantiation s)(adap := insert (unat addr) (addrs_in_instantiation s adap))\<rparr>))
      else (0, s))"

definition i2c_unlock_addr :: "i2c_bus \<Rightarrow> nat list \<Rightarrow> 16 word \<Rightarrow> 16 word \<Rightarrow> i2c_bus" where
  "i2c_unlock_addr s adap addr flags =
     (if flags AND I2C_CLIENT_TEN = 0
      then s\<lparr>addrs_in_instantiation :=
               (addrs_in_instantiation s)(adap := addrs_in_instantiation s adap - {unat addr})\<rparr>
      else s)"

text \<open>
  Modelled from the spec: \<^verbatim>\<open>device_register\<close> and \<^verbatim>\<open>device_unregister\<close> of
  the driver core, which are not among the sources. A created client becomes the last
  child of its adapter's device; a destroyed one leaves the children of its parent.
\<close>

fun device_add :: "device \<Rightarrow> nat list \<Rightarrow> device \<Rightarrow> device" where
  "device_add (I2C_Adapter ds) [] dev = I2C_Adapter (ds @ [dev])"
| "device_add (I2C_Adapter ds) (i # path) dev =
     (if i < length ds then I2C_Adapter (ds[i := device_add (ds ! i) path dev])
      else I2C_Adapter ds)"
| "device_add parent path dev = parent"

fun device_del :: "device \<Rightarrow> nat list \<Rightarrow> device" where
  "device_del (I2C_Adapter ds) [i] = I2C_Adapter (take i ds @ drop (Suc i) ds)"
| "device_del (I2C_Adapter ds) (i # j # path) =
     (if i < length ds then I2C_Adapter (ds[i := device_del (ds ! i) (j # path)])
      else I2C_Adapter ds)"
| "device_del dev path = dev"

definition device_unregister :: "nat list \<Rightarrow> i2c_bus \<Rightarrow> i2c_bus" where
  "device_unregister dev s = s\<lparr>devices := device_del (devices s) dev\<rparr>"

text \<open>
  \<^verbatim>\<open>i2c_new_client_device\<close>. The result is the returned pointer and the new state;
  the handle of a created client is its position below the adapter.
\<close>

definition i2c_new_client_device ::
  "driver_core \<Rightarrow> i2c_bus \<Rightarrow> nat list \<Rightarrow> i2c_board_info \<Rightarrow> nat list ptr \<times> i2c_bus" where
  "i2c_new_client_device env s adap info =
     (if \<not> kzalloc_ok env then (ERR_PTR (- ENOMEM), s)
      else
        let client = client_of_info info;
            status = i2c_check_addr_validity (client_addr client) (client_flags client)
        in if status \<noteq> 0 then (ERR_PTR status, s)
           else
             let (status, s) = i2c_lock_addr s adap (client_addr client) (client_flags client)
             in if status \<noteq> 0 then (ERR_PTR status, s)
                else
                  let status = i2c_check_addr_busy (devices s) adap
                                 (uint (i2c_encode_flags_to_addr client))
                  in if status \<noteq> 0
                     then (ERR_PTR status,
                           i2c_unlock_addr s adap (client_addr client) (client_flags client))
                     else
                       let status = (if info_swnode info
                                     then device_add_software_node_status env else 0)
                       in if status \<noteq> 0
                          then (ERR_PTR status,
                                i2c_unlock_addr s adap (client_addr client) (client_flags client))
                          else
                            let status = device_register_status env
                            in if status \<noteq> 0
                               then (ERR_PTR status,
                                     i2c_unlock_addr s adap (client_addr client)
                                       (client_flags client))
                               else
                                 let handle = adap @ [length (children (adapter_dev (devices s) adap))];
                                     s = s\<lparr>devices := device_add (devices s) adap (I2C_Client client)\<rparr>
                                 in (PTR handle,
                                     i2c_unlock_addr s adap (client_addr client)
                                       (client_flags client)))"

text \<open>
  \<^verbatim>\<open>i2c_unregister_device\<close>. The driver core's removal of the device is a
  parameter, so that the function serves both the bus tree above and the registry
  below. The clean-up of firmware nodes is outside the model.
\<close>

definition i2c_unregister_device :: "('c \<Rightarrow> 's \<Rightarrow> 's) \<Rightarrow> 'c ptr \<Rightarrow> 's \<Rightarrow> 's" where
  "i2c_unregister_device unregister client s =
     (if IS_ERR_OR_NULL client then s
      else (case client of PTR c \<Rightarrow> unregister c s | _ \<Rightarrow> s))"

section \<open>Adapter registry\<close>

text \<open>
  The fields of \<^verbatim>\<open>struct i2c_adapter\<close> that \<^verbatim>\<open>i2c_del_adapter\<close> uses: the bus
  number, the embedded device (whether it is registered, and its children), and the
  list of clients created from user space. Adapter structures are owned by their
  drivers and outlive the registration, so the state holds them by address.
\<close>

record i2c_adapter_reg =
  nr :: int
  dev_registered :: bool
  dev_children :: "device list"
  userspace_clients :: "i2c_client list"

text \<open>A driver's list of detected clients, each with the adapter it sits on.\<close>

record i2c_driver =
  clients :: "(nat \<times> i2c_client) list"

text \<open>
  Modelled from the spec: \<^verbatim>\<open>i2c_adapter_idr\<close> with \<^verbatim>\<open>idr_find\<close> and
  \<^verbatim>\<open>idr_remove\<close>, which are not among the sources. The spec's registry "owns the
  adapter to id and id to adapter mapping": the idr is a map from bus numbers to
  adapter addresses.
\<close>

record i2c_core =
  i2c_adapter_idr :: "int \<Rightarrow> nat option"
  adapters :: "nat \<Rightarrow> i2c_adapter_reg"
  drivers :: "i2c_driver list"

text \<open>\<^verbatim>\<open>device_unregister\<close> on a client of the registry: it leaves its adapter's children.\<close>

definition device_unregister_client :: "nat \<times> i2c_client \<Rightarrow> i2c_core \<Rightarrow> i2c_core" where
  "device_unregister_client c s =
     (let adap = fst c; a = adapters s adap
      in s\<lparr>adapters := (adapters s)
             (adap := a\<lparr>dev_children := remove1 (I2C_Client (snd c)) (dev_children a)\<rparr>)\<rparr>)"

text \<open>
  \<^verbatim>\<open>i2c_do_del_adapter\<close>, over a driver's list of detected clients: those on the
  adapter are taken off the list and unregistered.
\<close>

fun i2c_do_del_adapter ::
  "(nat \<times> i2c_client) list \<Rightarrow> nat \<Rightarrow> i2c_core \<Rightarrow> (nat \<times> i2c_client) list \<times> i2c_core" where
  "i2c_do_del_adapter [] adapter s = ([], s)"
| "i2c_do_del_adapter (client # rest) adapter s =
     (if fst client = adapter
      then i2c_do_del_adapter rest adapter
             (i2c_unregister_device device_unregister_client (PTR client) s)
      else (let (kept, s) = i2c_do_del_adapter rest adapter s in (client # kept, s)))"

text \<open>\<^verbatim>\<open>bus_for_each_drv\<close> with \<^verbatim>\<open>__process_removed_adapter\<close>.\<close>

fun uu_process_removed_adapter ::
  "i2c_driver list \<Rightarrow> nat \<Rightarrow> i2c_core \<Rightarrow> i2c_driver list \<times> i2c_core" where
  "uu_process_removed_adapter [] adap s = ([], s)"
| "uu_process_removed_adapter (d # ds) adap s =
     (let (kept, s) = i2c_do_del_adapter (clients d) adap s;
          (ds, s) = uu_process_removed_adapter ds adap s
      in (d\<lparr>clients := kept\<rparr> # ds, s))"

text \<open>\<^verbatim>\<open>__unregister_client\<close> and \<^verbatim>\<open>__unregister_dummy\<close>, the two passes over the children.\<close>

definition uu_unregister_client :: "nat \<Rightarrow> device \<Rightarrow> i2c_core \<Rightarrow> i2c_core" where
  "uu_unregister_client adap dev s =
     (case i2c_verify_client dev of
        Some client \<Rightarrow>
          if client_name client \<noteq> ''dummy''
          then i2c_unregister_device device_unregister_client (PTR (adap, client)) s
          else s
      | None \<Rightarrow> s)"

definition uu_unregister_dummy :: "nat \<Rightarrow> device \<Rightarrow> i2c_core \<Rightarrow> i2c_core" where
  "uu_unregister_dummy adap dev s =
     i2c_unregister_device device_unregister_client
       (case i2c_verify_client dev of Some client \<Rightarrow> PTR (adap, client) | None \<Rightarrow> NULL) s"

text \<open>
  \<^verbatim>\<open>i2c_del_adapter\<close>. The calls into power management, debugfs and the host-notify
  domain are outside the model.
\<close>

definition i2c_del_adapter :: "nat \<Rightarrow> i2c_core \<Rightarrow> i2c_core" where
  "i2c_del_adapter adap s =
     (let found = i2c_adapter_idr s (nr (adapters s adap))
      in if found \<noteq> Some adap then s
         else
           let (ds, s) = uu_process_removed_adapter (drivers s) adap s;
               s = s\<lparr>drivers := ds\<rparr>;
               s = fold (\<lambda>client. i2c_unregister_device device_unregister_client
                                     (PTR (adap, client)))
                     (userspace_clients (adapters s adap)) s;
               s = s\<lparr>adapters := (adapters s)
                       (adap := (adapters s adap)\<lparr>userspace_clients := []\<rparr>)\<rparr>;
               s = fold (uu_unregister_client adap) (dev_children (adapters s adap)) s;
               s = fold (uu_unregister_dummy adap) (dev_children (adapters s adap)) s;
               s = s\<lparr>adapters := (adapters s)
                       (adap := (adapters s adap)\<lparr>dev_registered := False\<rparr>)\<rparr>;
               s = s\<lparr>i2c_adapter_idr := (i2c_adapter_idr s)(nr (adapters s adap) := None)\<rparr>
           in s\<lparr>adapters := (adapters s)
                   (adap := (adapters s adap)\<lparr>dev_registered := False, dev_children := []\<rparr>)\<rparr>)"

section \<open>Transfer engine\<close>

text \<open>Message flags, quirk flags and the bits of \<^verbatim>\<open>locked_flags\<close>.\<close>

definition I2C_M_RD :: "16 word" where "I2C_M_RD = 0x0001"

definition I2C_AQ_COMB :: "64 word" where "I2C_AQ_COMB = push_bit 0 1"
definition I2C_AQ_COMB_WRITE_FIRST :: "64 word" where "I2C_AQ_COMB_WRITE_FIRST = push_bit 1 1"
definition I2C_AQ_COMB_READ_SECOND :: "64 word" where "I2C_AQ_COMB_READ_SECOND = push_bit 2 1"
definition I2C_AQ_COMB_SAME_ADDR :: "64 word" where "I2C_AQ_COMB_SAME_ADDR = push_bit 3 1"
definition I2C_AQ_NO_ZERO_LEN_READ :: "64 word" where "I2C_AQ_NO_ZERO_LEN_READ = push_bit 5 1"
definition I2C_AQ_NO_ZERO_LEN_WRITE :: "64 word" where "I2C_AQ_NO_ZERO_LEN_WRITE = push_bit 6 1"

definition I2C_ALF_IS_SUSPENDED :: nat where "I2C_ALF_IS_SUSPENDED = 0"
definition I2C_ALF_SUSPEND_REPORTED :: nat where "I2C_ALF_SUSPEND_REPORTED = 1"

text \<open>\<^verbatim>\<open>struct i2c_msg\<close> without its buffer, and \<^verbatim>\<open>struct i2c_adapter_quirks\<close>.\<close>

record i2c_msg =
  msg_addr :: "16 word"
  msg_flags :: "16 word"
  msg_len :: "16 word"

record i2c_adapter_quirks =
  quirk_flags :: "64 word"
  max_num_msgs :: int
  max_write_len :: "16 word"
  max_read_len :: "16 word"
  max_comb_1st_msg_len :: "16 word"
  max_comb_2nd_msg_len :: "16 word"

text \<open>
  \<^verbatim>\<open>i2c_quirk_exceeded\<close> and \<^verbatim>\<open>i2c_quirk_error\<close>; the message of the latter is
  only printed.
\<close>

definition i2c_quirk_exceeded :: "int \<Rightarrow> int \<Rightarrow> bool" where
  "i2c_quirk_exceeded val quirk \<longleftrightarrow> quirk \<noteq> 0 \<and> val > quirk"

definition i2c_quirk_error :: "i2c_msg \<Rightarrow> int" where
  "i2c_quirk_error msg = - EOPNOTSUPP"

text \<open>
  \<^verbatim>\<open>i2c_check_for_quirks\<close>. The message array comes with its count \<open>num\<close>; the
  caller owns at least \<open>num\<close> messages. \<open>comb_checks\<close> is the block of special checks
  for a combined transfer of two messages (\<open>None\<close> when all of them pass),
  \<open>quirks_msg_check\<close> is the body of the loop over the messages (\<open>Some\<close> of the
  value it returns, \<open>None\<close> when the loop goes on) and \<open>quirks_msg_loop\<close> is the
  loop.
\<close>

definition quirks_msg_check :: "i2c_adapter_quirks \<Rightarrow> bool \<Rightarrow> i2c_msg \<Rightarrow> int option" where
  "quirks_msg_check q do_len_check msg =
     (let len = msg_len msg in
      if msg_flags msg AND I2C_M_RD \<noteq> 0 then
        (if do_len_check \<and> i2c_quirk_exceeded (uint len) (uint (max_read_len q))
         then Some (i2c_quirk_error msg)
         else if quirk_flags q AND I2C_AQ_NO_ZERO_LEN_READ \<noteq> 0 \<and> len = 0
         then Some (i2c_quirk_error msg)
         else None)
      else
        (if do_len_check \<and> i2c_quirk_exceeded (uint len) (uint (max_write_len q))
         then Some (i2c_quirk_error msg)
         else if quirk_flags q AND I2C_AQ_NO_ZERO_LEN_WRITE \<noteq> 0 \<and> len = 0
         then Some (i2c_quirk_error msg)
         else None))"

function quirks_msg_loop :: "i2c_adapter_quirks \<Rightarrow> bool \<Rightarrow> i2c_msg list \<Rightarrow> int \<Rightarrow> int \<Rightarrow> int" where
  "quirks_msg_loop q do_len_check msgs num i =
     (if i < num then
        (case quirks_msg_check q do_len_check (msgs ! nat i) of
           Some err \<Rightarrow> err
         | None \<Rightarrow> quirks_msg_loop q do_len_check msgs num (i + 1))
      else 0)"
  by pat_completeness auto
termination
  by (relation "measure (\<lambda>(q, do_len_check, msgs, num, i). nat (num - i))") auto

definition comb_checks :: "i2c_adapter_quirks \<Rightarrow> i2c_msg list \<Rightarrow> int option" where
  "comb_checks q msgs =
     (if quirk_flags q AND I2C_AQ_COMB_WRITE_FIRST \<noteq> 0 \<and> msg_flags (msgs ! 0) AND I2C_M_RD \<noteq> 0
      then Some (i2c_quirk_error (msgs ! 0))
      else if quirk_flags q AND I2C_AQ_COMB_READ_SECOND \<noteq> 0 \<and> msg_flags (msgs ! 1) AND I2C_M_RD = 0
      then Some (i2c_quirk_error (msgs ! 1))
      else if quirk_flags q AND I2C_AQ_COMB_SAME_ADDR \<noteq> 0 \<and> msg_addr (msgs ! 0) \<noteq> msg_addr (msgs ! 1)
      then Some (i2c_quirk_error (msgs ! 0))
      else if i2c_quirk_exceeded (uint (msg_len (msgs ! 0))) (uint (max_comb_1st_msg_len q))
      then Some (i2c_quirk_error (msgs ! 0))
      else if i2c_quirk_exceeded (uint (msg_len (msgs ! 1))) (uint (max_comb_2nd_msg_len q))
      then Some (i2c_quirk_error (msgs ! 1))
      else None)"

definition i2c_check_for_quirks :: "i2c_adapter_quirks \<Rightarrow> i2c_msg list \<Rightarrow> int \<Rightarrow> int" where
  "i2c_check_for_quirks q msgs num =
     (let comb = (quirk_flags q AND I2C_AQ_COMB \<noteq> 0);
          max_num = (if comb then 2 else max_num_msgs q);
          special = (if comb \<and> num = 2 then comb_checks q msgs else None)
      in case special of
           Some err \<Rightarrow> err
         | None \<Rightarrow>
             let do_len_check = \<not> (comb \<and> num = 2) in
             if i2c_quirk_exceeded num max_num then i2c_quirk_error (msgs ! 0)
             else quirks_msg_loop q do_len_check msgs num 0)"

text \<open>
  What a transfer primitive can see and change: the clock \<^verbatim>\<open>jiffies\<close> (an
  \<^verbatim>\<open>unsigned long\<close>, 32 bits on this ARM board), whether the system is in the
  state where \<^verbatim>\<open>i2c_in_atomic_xfer_mode\<close> holds, and the hardware.
\<close>

record 'h kernel =
  jiffies :: "32 word"
  in_atomic_xfer_mode :: bool
  hw :: 'h

type_synonym 'h xfer = "i2c_msg list \<Rightarrow> int \<Rightarrow> 'h kernel \<Rightarrow> int \<times> 'h kernel"

text \<open>
  \<^verbatim>\<open>struct i2c_algorithm\<close>, and the fields of \<^verbatim>\<open>struct i2c_adapter\<close> that the
  transfer engine uses.
\<close>

record 'h i2c_algorithm =
  master_xfer :: "'h xfer option"
  master_xfer_atomic :: "'h xfer option"

record 'h i2c_adapter =
  algo :: "'h i2c_algorithm"
  timeout :: int
  retries :: int
  locked_flags :: "32 word"
  quirks :: "i2c_adapter_quirks option"

text \<open>
  What a transfer leaves behind for an observer: each invocation of a primitive, and
  the warning of \<^verbatim>\<open>__i2c_check_suspended\<close>.
\<close>

datatype event = Master_xfer | Master_xfer_atomic | Dev_WARN

text \<open>
  Modelled from the spec: \<^verbatim>\<open>time_after\<close> of \<^verbatim>\<open>linux/jiffies.h\<close>, which is not
  among the sources. The spec retries "until a wall-clock timeout elapses since the
  first attempt"; the kernel compares wrapping clock values by the sign of their
  difference.
\<close>

definition time_after :: "32 word \<Rightarrow> 32 word \<Rightarrow> bool" where
  "time_after a b \<longleftrightarrow> sint (b - a) < 0"

definition i2c_in_atomic_xfer_mode :: "'h kernel \<Rightarrow> bool" where
  "i2c_in_atomic_xfer_mode k = in_atomic_xfer_mode k"

text \<open>\<^verbatim>\<open>__i2c_check_suspended\<close>, with \<^verbatim>\<open>test_bit\<close> and \<^verbatim>\<open>test_and_set_bit\<close>.\<close>

definition uu_i2c_check_suspended ::
  "'h i2c_adapter \<Rightarrow> int \<times> 'h i2c_adapter \<times> event list" where
  "uu_i2c_check_suspended adap =
     (if bit (locked_flags adap) I2C_ALF_IS_SUSPENDED
      then (if \<not> bit (locked_flags adap) I2C_ALF_SUSPEND_REPORTED
            then (- ESHUTDOWN,
                  adap\<lparr>locked_flags := set_bit I2C_ALF_SUSPEND_REPORTED (locked_flags adap)\<rparr>,
                  [Dev_WARN])
            else (- ESHUTDOWN, adap, []))
      else (0, adap, []))"

text \<open>
  One pass of the retry loop calls the atomic primitive when the system is in atomic
  transfer mode and the adapter has one, and \<^verbatim>\<open>master_xfer\<close> otherwise.
\<close>

definition invoke_xfer ::
  "'h i2c_adapter \<Rightarrow> 'h xfer \<Rightarrow> i2c_msg list \<Rightarrow> int \<Rightarrow> 'h kernel \<Rightarrow> int \<times> 'h kernel \<times> event" where
  "invoke_xfer adap xfer msgs num k =
     (if i2c_in_atomic_xfer_mode k \<and> master_xfer_atomic (algo adap) \<noteq> None
      then (let (ret, k) = the (master_xfer_atomic (algo adap)) msgs num k
            in (ret, k, Master_xfer_atomic))
      else (let (ret, k) = xfer msgs num k in (ret, k, Master_xfer)))"

text \<open>The retry loop of \<^verbatim>\<open>__i2c_transfer\<close>.\<close>

function xfer_loop ::
  "'h i2c_adapter \<Rightarrow> 'h xfer \<Rightarrow> i2c_msg list \<Rightarrow> int \<Rightarrow> 32 word \<Rightarrow> int \<Rightarrow> int \<Rightarrow> 'h kernel
   \<Rightarrow> int \<times> 'h kernel \<times> event list" where
  "xfer_loop adap xfer msgs num orig_jiffies try ret k =
     (if try \<le> retries adap then
        (let (ret, k, ev) = invoke_xfer adap xfer msgs num k
         in if ret \<noteq> - EAGAIN then (ret, k, [ev])
            else if time_after (jiffies k) (orig_jiffies + word_of_int (timeout adap))
            then (ret, k, [ev])
            else (let (ret, k, evs) = xfer_loop adap xfer msgs num orig_jiffies (try + 1) ret k
                  in (ret, k, ev # evs)))
      else (ret, k, []))"
  by pat_completeness auto
termination
  by (relation "measure (\<lambda>(adap, xfer, msgs, num, orig, try, ret, k). nat (retries adap + 1 - try))")
     auto

text \<open>
  \<^verbatim>\<open>__i2c_transfer\<close>. The message pointer may be \<^verbatim>\<open>NULL\<close>. The result is the
  return value, the adapter, the kernel state and the events; tracing is outside the
  model.
\<close>

definition uu_i2c_transfer ::
  "'h i2c_adapter \<Rightarrow> i2c_msg list option \<Rightarrow> int \<Rightarrow> 'h kernel
   \<Rightarrow> int \<times> 'h i2c_adapter \<times> 'h kernel \<times> event list" where
  "uu_i2c_transfer adap msgs num k =
     (case master_xfer (algo adap) of
        None \<Rightarrow> (- EOPNOTSUPP, adap, k, [])
      | Some xfer \<Rightarrow>
          (case msgs of
             None \<Rightarrow> (- EINVAL, adap, k, [])
           | Some ms \<Rightarrow>
               if num < 1 then (- EINVAL, adap, k, [])
               else
                 let (ret, adap, warn) = uu_i2c_check_suspended adap
                 in if ret \<noteq> 0 then (ret, adap, k, warn)
                    else if (case quirks adap of
                               Some q \<Rightarrow> i2c_check_for_quirks q ms num \<noteq> 0
                             | None \<Rightarrow> False)
                    then (- EOPNOTSUPP, adap, k, [])
                    else
                      let orig_jiffies = jiffies k;
                          (ret, k, evs) = xfer_loop adap xfer ms num orig_jiffies 0 0 k
                      in (ret, adap, k, evs)))"

text \<open>
  A transfer passes the checks before the retry loop, and the time at which the retries
  end.
\<close>

definition passes_checks :: "'h i2c_adapter \<Rightarrow> 'h xfer \<Rightarrow> i2c_msg list \<Rightarrow> int \<Rightarrow> bool" where
  "passes_checks adap xfer ms num \<longleftrightarrow>
     master_xfer (algo adap) = Some xfer \<and> 1 \<le> num \<and>
     \<not> bit (locked_flags adap) I2C_ALF_IS_SUSPENDED \<and>
     (case quirks adap of Some q \<Rightarrow> i2c_check_for_quirks q ms num = 0 | None \<Rightarrow> True)"

definition deadline :: "'h i2c_adapter \<Rightarrow> 'h kernel \<Rightarrow> 32 word" where
  "deadline adap k = jiffies k + word_of_int (timeout adap)"

text \<open>
  The attempts of a transfer, to state what the retry loop does: \<open>attempts\<close> is
  what \<open>n\<close> invocations of the primitive, one after the other from a kernel state,
  return (value, state afterwards and event), whatever the loop does with them. Such a
  sequence \<open>ends_retries\<close> when it is a complete run of a loop that has \<open>left\<close>
  tries and the time limit \<open>limit\<close>: it has at least one attempt and at most
  \<open>left\<close>; every attempt but the last returned \<^verbatim>\<open>-EAGAIN\<close> and ended no later
  than the limit; and the last attempt returned another value, or ended after the limit,
  or was the last try.
\<close>

fun attempts ::
  "'h i2c_adapter \<Rightarrow> 'h xfer \<Rightarrow> i2c_msg list \<Rightarrow> int \<Rightarrow> nat \<Rightarrow> 'h kernel
   \<Rightarrow> (int \<times> 'h kernel \<times> event) list" where
  "attempts adap xfer msgs num 0 k = []"
| "attempts adap xfer msgs num (Suc n) k =
     (let (ret, k', ev) = invoke_xfer adap xfer msgs num k
      in (ret, k', ev) # attempts adap xfer msgs num n k')"

definition ends_retries :: "32 word \<Rightarrow> int \<Rightarrow> (int \<times> 'h kernel \<times> event) list \<Rightarrow> bool" where
  "ends_retries limit left as \<longleftrightarrow>
     as \<noteq> [] \<and> int (length as) \<le> left \<and>
     (\<forall>a\<in>set (butlast as). fst a = - EAGAIN \<and> \<not> time_after (jiffies (fst (snd a))) limit) \<and>
     (fst (last as) \<noteq> - EAGAIN \<or> time_after (jiffies (fst (snd (last as)))) limit \<or>
      int (length as) = left)"

section \<open>Bus recovery\<close>











section \<open>Example inputs\<close>

text \<open>A mux tree: a root adapter with two channel adapters, an EEPROM on the first.\<close>

definition eeprom :: i2c_client where
  "eeprom = \<lparr>client_flags = 0, client_addr = 0x50, client_name = ''eeprom''\<rparr>"

definition dummy_client :: i2c_client where
  "dummy_client = \<lparr>client_flags = 0, client_addr = 0x51, client_name = ''dummy''\<rparr>"

definition sensor :: i2c_client where
  "sensor = \<lparr>client_flags = 0, client_addr = 0x48, client_name = ''sensor''\<rparr>"

definition eeprom_info :: i2c_board_info where
  "eeprom_info = \<lparr>info_type = ''eeprom'', info_flags = 0, info_addr = 0x50, info_swnode = False\<rparr>"

definition ten_bit_info :: i2c_board_info where
  "ten_bit_info = \<lparr>info_type = ''ten'', info_flags = I2C_CLIENT_TEN, info_addr = 0x50,
                    info_swnode = False\<rparr>"

definition ok_env :: driver_core where
  "ok_env = \<lparr>kzalloc_ok = True, device_add_software_node_status = 0, device_register_status = 0\<rparr>"

definition mux_bus :: i2c_bus where
  "mux_bus = \<lparr>devices = I2C_Adapter [I2C_Adapter [I2C_Client eeprom], I2C_Adapter []],
              addrs_in_instantiation = (\<lambda>adap. {})\<rparr>"

text \<open>A root adapter that holds the EEPROM itself, with one empty channel adapter.\<close>

definition trunk_bus :: i2c_bus where
  "trunk_bus = \<lparr>devices = I2C_Adapter [I2C_Client eeprom, I2C_Adapter []],
                addrs_in_instantiation = (\<lambda>adap. {})\<rparr>"

text \<open>A registry with one adapter, registered as bus 0 at address 7, and the same after its removal.\<close>

definition unused_adapter :: i2c_adapter_reg where
  "unused_adapter = \<lparr>nr = - 1, dev_registered = False, dev_children = [], userspace_clients = []\<rparr>"

definition example_core :: i2c_core where
  "example_core =
     \<lparr>i2c_adapter_idr = (\<lambda>id. if id = 0 then Some 7 else None),
      adapters = (\<lambda>p. if p = 7
                       then \<lparr>nr = 0, dev_registered = True,
                             dev_children = [I2C_Client eeprom, I2C_Client dummy_client,
                                             Other_Device, I2C_Client sensor],
                             userspace_clients = [eeprom]\<rparr>
                       else unused_adapter),
      drivers = [\<lparr>clients = [(7, sensor)]\<rparr>]\<rparr>"

definition example_core_deleted :: i2c_core where
  "example_core_deleted =
     \<lparr>i2c_adapter_idr = (\<lambda>id. None),
      adapters = (\<lambda>p. if p = 7
                       then \<lparr>nr = 0, dev_registered = False, dev_children = [],
                             userspace_clients = []\<rparr>
                       else unused_adapter),
      drivers = [\<lparr>clients = []\<rparr>]\<rparr>"

text \<open>
  Transfer primitives on a hardware that counts the invocations: one loses arbitration
  twice and then succeeds, taking \<open>dt\<close> ticks each time; one always loses arbitration.
\<close>

definition write_msg :: i2c_msg where
  "write_msg = \<lparr>msg_addr = 0x50, msg_flags = 0, msg_len = 1\<rparr>"

definition flaky_xfer :: "32 word \<Rightarrow> nat xfer" where
  "flaky_xfer dt msgs num k =
     (if hw k < 2 then - EAGAIN else num, k\<lparr>jiffies := jiffies k + dt, hw := hw k + 1\<rparr>)"

definition stuck_xfer :: "nat xfer" where
  "stuck_xfer msgs num k = (- EAGAIN, k\<lparr>jiffies := jiffies k + 1, hw := hw k + 1\<rparr>)"

definition example_adapter :: "nat xfer \<Rightarrow> nat i2c_adapter" where
  "example_adapter xfer =
     \<lparr>algo = \<lparr>master_xfer = Some xfer, master_xfer_atomic = None\<rparr>,
      timeout = 100, retries = 3, locked_flags = 0, quirks = None\<rparr>"

definition boot :: "nat kernel" where
  "boot = \<lparr>jiffies = 0, in_atomic_xfer_mode = False, hw = 0\<rparr>"


definition one_msg_quirks :: i2c_adapter_quirks where
  "one_msg_quirks = \<lparr>quirk_flags = 0, max_num_msgs = 1, max_write_len = 0,
     max_read_len = 0, max_comb_1st_msg_len = 0, max_comb_2nd_msg_len = 0\<rparr>"

definition suspended_adapter :: "nat i2c_adapter" where
  "suspended_adapter =
     (example_adapter stuck_xfer)\<lparr>locked_flags := 1, quirks := Some one_msg_quirks\<rparr>"





section \<open>Evaluation of the examples\<close>

text \<open>
  The loops are unfolded one pass at a time in the proofs, so their equations are
  taken out of the simplifier. The collections name the definitions that evaluate the
  example inputs.
\<close>

declare xfer_loop.simps [simp del]


declare quirks_msg_loop.simps [simp del]

lemma client_of_info_sel [simp]:
  "client_addr (client_of_info info) = info_addr info"
  "client_flags (client_of_info info) = info_flags info"
  "client_name (client_of_info info) = info_type info"
  by (simp_all add: client_of_info_def)

lemmas bus_example_defs = eeprom_info_def ok_env_def mux_bus_def trunk_bus_def eeprom_def
  client_of_info_def client_on_def

lemmas new_client_eval = i2c_new_client_device_def i2c_check_addr_validity_def
  i2c_lock_addr_def i2c_unlock_addr_def i2c_check_addr_busy_def i2c_parent_is_i2c_adapter_def
  adapter_dev_def device_for_each_child_def uu_i2c_check_addr_busy_def i2c_verify_client_def
  i2c_encode_flags_to_addr_def I2C_CLIENT_TEN_def I2C_CLIENT_SLAVE_def
  I2C_ADDR_OFFSET_TEN_BIT_def I2C_ADDR_OFFSET_SLAVE_def errno_defs Let_def

lemmas example_defs = flaky_xfer_def stuck_xfer_def example_adapter_def boot_def
  one_msg_quirks_def write_msg_def invoke_xfer_def i2c_in_atomic_xfer_mode_def
  time_after_def deadline_def passes_checks_def I2C_ALF_IS_SUSPENDED_def
  I2C_ALF_SUSPEND_REPORTED_def


section \<open>Strict validity of 7-bit addresses\<close>

text \<open>
  Claim C6. The strict check rejects an address with \<^verbatim>\<open>-EINVAL\<close> exactly when it
  is below 0x08 or above 0x77, and returns 0 for every address from 0x08 to 0x77.
\<close>

theorem strict_validity_rejects_reserved:
  "(i2c_check_7bit_addr_validity_strict a = - EINVAL \<longleftrightarrow> a < 0x08 \<or> a > 0x77) \<and>
   (i2c_check_7bit_addr_validity_strict a = 0 \<longleftrightarrow> 0x08 \<le> a \<and> a \<le> 0x77)"
  by (auto simp: i2c_check_7bit_addr_validity_strict_def EINVAL_def)

section \<open>Addressing modes stay apart\<close>

lemma small_no_high_bit:
  fixes a :: "16 word"
  assumes "a \<le> 0x3ff"
  shows "\<not> bit a 15"
proof -
  from assms have "unat a \<le> 1023"
    by (simp add: word_le_nat_alt)
  then have "unat a div 2 ^ 15 = 0"
    by simp
  moreover have "bit a 15 \<longleftrightarrow> bit (unat a) 15"
    by (simp add: bit_unsigned_iff)
  moreover have "bit (unat a) 15 \<longleftrightarrow> odd (unat a div 2 ^ 15)"
    by (rule bit_iff_odd)
  ultimately show ?thesis
    by simp
qed

lemma encode_seven_bit_no_high_bit:
  assumes "client_flags c AND I2C_CLIENT_TEN = 0" "client_addr c \<le> 0x7f"
  shows "\<not> bit (i2c_encode_flags_to_addr c) 15"
proof -
  from assms(2) have "client_addr c \<le> 0x3ff"
    by (rule order_trans) simp
  then have "\<not> bit (client_addr c) 15"
    by (rule small_no_high_bit)
  with assms(1) show ?thesis
    by (simp add: i2c_encode_flags_to_addr_def Let_def bit_or_iff I2C_ADDR_OFFSET_SLAVE_def)
qed

lemma no_high_bit_less:
  fixes w :: "16 word"
  assumes "\<not> bit w 15"
  shows "w < 0x8000"
proof -
  have "w = w AND mask 15"
  proof (rule bit_word_eqI)
    fix n assume "n < LENGTH(16)"
    with assms show "bit w n \<longleftrightarrow> bit (w AND mask 15) n"
      by (cases "n = 15") (auto simp: bit_and_iff bit_mask_iff)
  qed
  moreover have "w AND mask 15 < 2 ^ 15"
    by (rule and_mask_less_size) (simp add: word_size)
  ultimately show ?thesis
    by simp
qed

lemma encode_ten_bit_lower_bound:
  assumes "client_flags c AND I2C_CLIENT_TEN \<noteq> 0"
  shows "I2C_ADDR_OFFSET_TEN_BIT \<le> i2c_encode_flags_to_addr c"
proof -
  have a: "I2C_ADDR_OFFSET_TEN_BIT \<le> client_addr c OR I2C_ADDR_OFFSET_TEN_BIT"
    by (simp add: or.commute [of "client_addr c"] le_word_or2)
  also have "\<dots> \<le> (client_addr c OR I2C_ADDR_OFFSET_TEN_BIT) OR I2C_ADDR_OFFSET_SLAVE"
    by (rule le_word_or2)
  finally show ?thesis
    using assms a by (simp add: i2c_encode_flags_to_addr_def Let_def)
qed

lemma encode_seven_bit_upper_bound:
  assumes "client_flags c AND I2C_CLIENT_TEN = 0" "client_addr c \<le> 0x7f"
  shows "i2c_encode_flags_to_addr c < I2C_ADDR_OFFSET_TEN_BIT"
proof -
  have "i2c_encode_flags_to_addr c < 0x8000"
    using assms by (intro no_high_bit_less encode_seven_bit_no_high_bit)
  also have "(0x8000 :: 16 word) < I2C_ADDR_OFFSET_TEN_BIT"
    by (simp add: I2C_ADDR_OFFSET_TEN_BIT_def)
  finally show ?thesis .
qed

text \<open>
  Claim C9. A client without the ten-bit flag and an address of at most 0x7F encodes
  below the ten-bit offset 0xA000, and a client with the ten-bit flag (address at most
  0x3FF) encodes at or above it, so the two encodings are never equal. The busy check
  of the one against the other's encoded address finds nothing, and on an adapter that
  holds only the 7-bit client the creation of the 10-bit client succeeds when the
  allocator and the driver core do.
\<close>

theorem addressing_modes_disjoint:
  assumes seven: "client_flags c7 AND I2C_CLIENT_TEN = 0" "client_addr c7 \<le> 0x7f"
    and ten: "info_flags info AND I2C_CLIENT_TEN \<noteq> 0" "info_addr info \<le> 0x3ff"
  shows "i2c_encode_flags_to_addr c7 < I2C_ADDR_OFFSET_TEN_BIT \<and>
         I2C_ADDR_OFFSET_TEN_BIT \<le> i2c_encode_flags_to_addr (client_of_info info) \<and>
         i2c_encode_flags_to_addr c7 \<noteq> i2c_encode_flags_to_addr (client_of_info info) \<and>
         uu_i2c_check_addr_busy (I2C_Client c7)
           (uint (i2c_encode_flags_to_addr (client_of_info info))) = 0 \<and>
         (kzalloc_ok env \<and> device_add_software_node_status env = 0 \<and>
          device_register_status env = 0 \<longrightarrow>
            i2c_new_client_device env
              \<lparr>devices = I2C_Adapter [I2C_Client c7], addrs_in_instantiation = locked\<rparr> [] info =
              (PTR [1],
               \<lparr>devices = I2C_Adapter [I2C_Client c7, I2C_Client (client_of_info info)],
                addrs_in_instantiation = locked\<rparr>))"
proof -
  have flags: "client_flags (client_of_info info) AND I2C_CLIENT_TEN \<noteq> 0"
    using ten(1) by (simp add: client_of_info_def)
  have below: "i2c_encode_flags_to_addr c7 < I2C_ADDR_OFFSET_TEN_BIT"
    using seven by (rule encode_seven_bit_upper_bound)
  have above: "I2C_ADDR_OFFSET_TEN_BIT \<le> i2c_encode_flags_to_addr (client_of_info info)"
    using flags by (rule encode_ten_bit_lower_bound)
  from below above
  have ne: "i2c_encode_flags_to_addr c7 \<noteq> i2c_encode_flags_to_addr (client_of_info info)"
    by auto
  then have free: "uu_i2c_check_addr_busy (I2C_Client c7)
           (uint (i2c_encode_flags_to_addr (client_of_info info))) = 0"
    by (simp add: uu_i2c_check_addr_busy_def i2c_verify_client_def flip: word_uint_eq_iff)
  have valid: "i2c_check_addr_validity (info_addr info) (info_flags info) = 0"
    using ten by (simp add: i2c_check_addr_validity_def not_less [symmetric])
  have lock: "i2c_lock_addr s [] (info_addr info) (info_flags info) = (0, s)"
    and unlock: "i2c_unlock_addr s [] (info_addr info) (info_flags info) = s" for s
    using ten(1) by (simp_all add: i2c_lock_addr_def i2c_unlock_addr_def)
  have busy: "i2c_check_addr_busy (I2C_Adapter [I2C_Client c7]) []
                (uint (i2c_encode_flags_to_addr (client_of_info info))) = 0"
    using free
    by (simp add: i2c_check_addr_busy_def i2c_parent_is_i2c_adapter_def adapter_dev_def
        device_for_each_child_def)
  have "kzalloc_ok env \<and> device_add_software_node_status env = 0 \<and>
        device_register_status env = 0 \<longrightarrow>
          i2c_new_client_device env
            \<lparr>devices = I2C_Adapter [I2C_Client c7], addrs_in_instantiation = locked\<rparr> [] info =
            (PTR [1],
             \<lparr>devices = I2C_Adapter [I2C_Client c7, I2C_Client (client_of_info info)],
              addrs_in_instantiation = locked\<rparr>)"
    using valid busy [unfolded client_of_info_def]
    by (simp add: i2c_new_client_device_def Let_def lock unlock adapter_dev_def client_of_info_def)
  with below above ne free show ?thesis
    by simp
qed

theorem addressing_modes_disjoint_witness:
  "client_flags eeprom AND I2C_CLIENT_TEN = 0 \<and> client_addr eeprom \<le> 0x7f \<and>
   info_flags ten_bit_info AND I2C_CLIENT_TEN \<noteq> 0 \<and> info_addr ten_bit_info \<le> 0x3ff \<and>
   client_addr eeprom = info_addr ten_bit_info \<and>
   i2c_encode_flags_to_addr eeprom \<noteq> i2c_encode_flags_to_addr (client_of_info ten_bit_info) \<and>
   i2c_new_client_device ok_env
     \<lparr>devices = I2C_Adapter [I2C_Client eeprom], addrs_in_instantiation = (\<lambda>adap. {})\<rparr> []
     ten_bit_info =
     (PTR [1],
      \<lparr>devices = I2C_Adapter [I2C_Client eeprom, I2C_Client (client_of_info ten_bit_info)],
       addrs_in_instantiation = (\<lambda>adap. {})\<rparr>)"
proof -
  have h: "client_flags eeprom AND I2C_CLIENT_TEN = 0" "client_addr eeprom \<le> 0x7f"
    "info_flags ten_bit_info AND I2C_CLIENT_TEN \<noteq> 0" "info_addr ten_bit_info \<le> 0x3ff"
    by (simp_all add: eeprom_def ten_bit_info_def I2C_CLIENT_TEN_def)
  have e: "kzalloc_ok ok_env \<and> device_add_software_node_status ok_env = 0 \<and>
          device_register_status ok_env = 0"
    by (simp add: ok_env_def)
  from addressing_modes_disjoint [OF h, of ok_env "\<lambda>adap. {}"] h e show ?thesis
    by (simp add: eeprom_def ten_bit_info_def)
qed

section \<open>Address conflicts across the mux tree\<close>

lemma for_each_child_zero_iff:
  "for_each_child ds f = 0 \<longleftrightarrow> (\<forall>d\<in>set ds. f d = 0)"
  by (induction ds) (auto simp: Let_def)

lemma for_each_child_range:
  "(\<And>d. d \<in> set ds \<Longrightarrow> f d = 0 \<or> f d = e) \<Longrightarrow>
   for_each_child ds f = 0 \<or> for_each_child ds f = e"
  by (induction ds) (auto simp: Let_def)

lemma for_each_child_hit:
  assumes "\<And>d. d \<in> set ds \<Longrightarrow> f d = 0 \<or> f d = e" and "d \<in> set ds" and "f d = e"
  shows "for_each_child ds f = e"
proof (cases "e = 0")
  case True
  with assms(1) show ?thesis
    by (simp add: for_each_child_zero_iff)
next
  case False
  with assms(2,3) have "for_each_child ds f \<noteq> 0"
    by (auto simp: for_each_child_zero_iff)
  with for_each_child_range [of ds f e] assms(1) show ?thesis
    by blast
qed

lemma uu_i2c_check_addr_busy_range:
  "uu_i2c_check_addr_busy dev addr = 0 \<or> uu_i2c_check_addr_busy dev addr = - EBUSY"
  by (simp add: uu_i2c_check_addr_busy_def split: option.splits)

lemma uu_i2c_check_addr_busy_hit:
  "uint (i2c_encode_flags_to_addr client) = addr \<Longrightarrow>
   uu_i2c_check_addr_busy (I2C_Client client) addr = - EBUSY"
  by (simp add: uu_i2c_check_addr_busy_def i2c_verify_client_def)

lemma i2c_check_mux_children_range:
  "i2c_check_mux_children dev addr = 0 \<or> i2c_check_mux_children dev addr = - EBUSY"
proof (induction dev addr rule: i2c_check_mux_children.induct)
  case (1 ds addr)
  then show ?case
    by (simp add: device_for_each_child_def for_each_child_range)
qed (simp_all add: uu_i2c_check_addr_busy_range)

lemma children_nonempty_adapter:
  "d \<in> set (children dev) \<Longrightarrow> \<exists>ds. dev = I2C_Adapter ds"
  by (cases dev) auto

lemma i2c_check_mux_children_hit:
  assumes "client_on dev path client" and "uint (i2c_encode_flags_to_addr client) = addr"
  shows "i2c_check_mux_children dev addr = - EBUSY"
  using assms(1)
proof (induction path arbitrary: dev)
  case Nil
  then have "I2C_Client client \<in> set (children dev)"
    by (simp add: client_on_def)
  then obtain ds where dev: "dev = I2C_Adapter ds" and mem: "I2C_Client client \<in> set ds"
    by (cases dev) auto
  have "i2c_check_mux_children (I2C_Client client) addr = - EBUSY"
    using assms(2) by (simp add: uu_i2c_check_addr_busy_hit)
  with mem show ?case
    unfolding dev i2c_check_mux_children.simps device_for_each_child_def children.simps
    by (intro for_each_child_hit [where d = "I2C_Client client"])
       (simp_all add: i2c_check_mux_children_range)
next
  case (Cons i path)
  then have i: "i < length (children dev)" and on: "client_on (children dev ! i) path client"
    by (auto simp: client_on_def split: if_splits)
  then obtain ds where dev: "dev = I2C_Adapter ds"
    by (cases dev) auto
  from i on dev have "i2c_check_mux_children (ds ! i) addr = - EBUSY"
    using Cons.IH by simp
  moreover from i dev have "ds ! i \<in> set ds"
    by simp
  ultimately show ?case
    unfolding dev i2c_check_mux_children.simps device_for_each_child_def children.simps
    by (intro for_each_child_hit [where d = "ds ! i"])
       (simp_all add: i2c_check_mux_children_range)
qed

lemma device_at_append:
  "device_at root (p @ q) = (case device_at root p of Some dev \<Rightarrow> device_at dev q | None \<Rightarrow> None)"
  by (induction p arbitrary: root) auto

lemma device_at_snoc_adapter:
  assumes "device_at root (p @ [i]) = Some dev"
  shows "\<exists>ds. device_at root p = Some (I2C_Adapter ds)"
proof -
  from assms obtain parent where p: "device_at root p = Some parent"
    and "i < length (children parent)"
    by (auto simp: device_at_append split: option.splits if_splits)
  then have "children parent ! i \<in> set (children parent)"
    by simp
  then obtain ds where "parent = I2C_Adapter ds"
    by (auto dest: children_nonempty_adapter)
  with p show ?thesis by simp
qed

lemma i2c_parent_is_i2c_adapter_valid:
  assumes "device_at root adapter = Some dev" and "adapter \<noteq> []"
  shows "i2c_parent_is_i2c_adapter root adapter = Some (butlast adapter)"
proof -
  from assms(2) have "adapter = butlast adapter @ [last adapter]"
    by simp
  with assms(1) have "device_at root (butlast adapter @ [last adapter]) = Some dev"
    by simp
  then obtain ds where "device_at root (butlast adapter) = Some (I2C_Adapter ds)"
    by (auto dest: device_at_snoc_adapter)
  with assms(2) show ?thesis
    by (simp add: i2c_parent_is_i2c_adapter_def)
qed

lemma i2c_check_mux_parents_range:
  "i2c_check_mux_parents root adapter addr = 0 \<or>
   i2c_check_mux_parents root adapter addr = - EBUSY"
proof (induction root adapter addr rule: i2c_check_mux_parents.induct)
  case (1 root adapter addr)
  have r: "device_for_each_child (adapter_dev root adapter) (\<lambda>dev. uu_i2c_check_addr_busy dev addr) = 0
     \<or> device_for_each_child (adapter_dev root adapter) (\<lambda>dev. uu_i2c_check_addr_busy dev addr) = - EBUSY"
    unfolding device_for_each_child_def
    by (rule for_each_child_range) (rule uu_i2c_check_addr_busy_range)
  show ?case
  proof (cases "i2c_parent_is_i2c_adapter root adapter")
    case None
    with r show ?thesis
      by (subst (1 2) i2c_check_mux_parents.simps) (simp add: Let_def)
  next
    case (Some p)
    with r "1.IH" [OF refl refl Some] show ?thesis
      by (subst (1 2) i2c_check_mux_parents.simps) (auto simp: Let_def)
  qed
qed

lemma i2c_check_mux_parents_hit:
  assumes "client_on root q client" and "uint (i2c_encode_flags_to_addr client) = addr"
    and "prefix q adapter" and "device_at root adapter = Some dev"
  shows "i2c_check_mux_parents root adapter addr = - EBUSY"
  using assms
proof (induction root adapter addr arbitrary: dev rule: i2c_check_mux_parents.induct)
  case (1 root adapter addr)
  let ?here = "device_for_each_child (adapter_dev root adapter) (\<lambda>dev. uu_i2c_check_addr_busy dev addr)"
  have r: "?here = 0 \<or> ?here = - EBUSY"
    unfolding device_for_each_child_def
    by (rule for_each_child_range) (rule uu_i2c_check_addr_busy_range)
  show ?case
  proof (cases "q = adapter")
    case True
    with "1.prems"(1,4) have "I2C_Client client \<in> set (children (adapter_dev root adapter))"
      by (simp add: client_on_def adapter_dev_def)
    then have "?here = - EBUSY"
      unfolding device_for_each_child_def
      by (rule for_each_child_hit [rotated])
         (simp_all add: uu_i2c_check_addr_busy_range uu_i2c_check_addr_busy_hit "1.prems"(2))
    then show ?thesis
      by (subst i2c_check_mux_parents.simps) (simp add: Let_def EBUSY_def split: option.splits)
  next
    case False
    with "1.prems"(3) have ne: "adapter \<noteq> []" and pre: "prefix q (butlast adapter)"
      by (auto simp: prefix_def butlast_append)
    from "1.prems"(4) ne have par: "i2c_parent_is_i2c_adapter root adapter = Some (butlast adapter)"
      by (rule i2c_parent_is_i2c_adapter_valid)
    then obtain pdev where pdev: "device_at root (butlast adapter) = Some pdev"
      by (auto simp: i2c_parent_is_i2c_adapter_def split: if_splits option.splits device.splits)
    show ?thesis
    proof (cases "?here = 0")
      case True
      with "1.IH" [OF refl refl par True "1.prems"(1,2) pre pdev] par show ?thesis
        by (subst i2c_check_mux_parents.simps) (simp add: Let_def)
    next
      case False
      with r par show ?thesis
        by (subst i2c_check_mux_parents.simps) (simp add: Let_def)
    qed
  qed
qed

lemma i2c_check_addr_busy_range:
  "i2c_check_addr_busy root adapter addr = 0 \<or> i2c_check_addr_busy root adapter addr = - EBUSY"
proof -
  have "device_for_each_child (adapter_dev root adapter) (\<lambda>dev. i2c_check_mux_children dev addr) = 0
    \<or> device_for_each_child (adapter_dev root adapter) (\<lambda>dev. i2c_check_mux_children dev addr) = - EBUSY"
    unfolding device_for_each_child_def
    by (rule for_each_child_range) (rule i2c_check_mux_children_range)
  then show ?thesis
  proof (cases "i2c_parent_is_i2c_adapter root adapter")
    case None
    with \<open>_ \<or> _\<close> show ?thesis
      by (simp add: i2c_check_addr_busy_def Let_def)
  next
    case (Some p)
    with \<open>_ \<or> _\<close> i2c_check_mux_parents_range [of root p addr] show ?thesis
      by (auto simp: i2c_check_addr_busy_def Let_def)
  qed
qed

lemma i2c_check_addr_busy_above:
  assumes "client_on root q client" and "uint (i2c_encode_flags_to_addr client) = addr"
    and "strict_prefix q adapter" and "device_at root adapter = Some dev"
  shows "i2c_check_addr_busy root adapter addr = - EBUSY"
proof -
  from assms(3) have ne: "adapter \<noteq> []" and pre: "prefix q (butlast adapter)"
    by (auto simp: strict_prefix_def prefix_def butlast_append)
  from assms(4) ne have par: "i2c_parent_is_i2c_adapter root adapter = Some (butlast adapter)"
    by (rule i2c_parent_is_i2c_adapter_valid)
  then obtain pdev where "device_at root (butlast adapter) = Some pdev"
    by (auto simp: i2c_parent_is_i2c_adapter_def split: if_splits option.splits device.splits)
  with assms(1,2) pre have "i2c_check_mux_parents root (butlast adapter) addr = - EBUSY"
    by (rule i2c_check_mux_parents_hit)
  with par show ?thesis
    by (simp add: i2c_check_addr_busy_def Let_def EBUSY_def)
qed

lemma i2c_check_addr_busy_below:
  assumes "client_on root q client" and "uint (i2c_encode_flags_to_addr client) = addr"
    and "prefix adapter q"
  shows "i2c_check_addr_busy root adapter addr = - EBUSY"
proof -
  from assms(3) obtain r where q: "q = adapter @ r"
    by (auto simp: prefix_def)
  with assms(1) obtain dev where dev: "device_at root adapter = Some dev"
    and on: "client_on dev r client"
    by (auto simp: client_on_def device_at_append split: option.splits)
  from on assms(2) have "i2c_check_mux_children dev addr = - EBUSY"
    by (rule i2c_check_mux_children_hit)
  moreover from on obtain ds where "dev = I2C_Adapter ds"
    by (cases dev; cases r) (auto simp: client_on_def)
  ultimately have down: "device_for_each_child (adapter_dev root adapter)
      (\<lambda>dev. i2c_check_mux_children dev addr) = - EBUSY"
    using dev by (simp add: adapter_dev_def)
  then show ?thesis
  proof (cases "i2c_parent_is_i2c_adapter root adapter")
    case None
    with down show ?thesis
      by (simp add: i2c_check_addr_busy_def Let_def)
  next
    case (Some p)
    with down i2c_check_mux_parents_range [of root p addr] show ?thesis
      by (auto simp: i2c_check_addr_busy_def Let_def)
  qed
qed

lemma i2c_check_addr_busy_same_branch:
  assumes "client_on root q client" and "uint (i2c_encode_flags_to_addr client) = addr"
    and "prefix q adapter \<or> prefix adapter q" and "device_at root adapter = Some dev"
  shows "i2c_check_addr_busy root adapter addr = - EBUSY"
proof (cases "prefix adapter q")
  case True
  with assms(1,2) show ?thesis
    by (rule i2c_check_addr_busy_below)
next
  case False
  with assms(3) have "strict_prefix q adapter"
    by (auto simp: strict_prefix_def)
  with assms(1,2) show ?thesis
    using assms(4) by (rule i2c_check_addr_busy_above)
qed

lemma lock_unlock_addr:
  "i2c_lock_addr s adap addr flags = (0, s') \<Longrightarrow> i2c_unlock_addr s' adap addr flags = s"
  by (auto simp: i2c_lock_addr_def i2c_unlock_addr_def EBUSY_def split: if_splits)

lemma i2c_lock_addr_devices:
  "i2c_lock_addr s adap addr flags = (status, s') \<Longrightarrow> devices s' = devices s"
  by (auto simp: i2c_lock_addr_def split: if_splits)

lemma i2c_lock_addr_status:
  "i2c_lock_addr s adap addr flags = (status, s') \<Longrightarrow>
   status = 0 \<or> (status = - EBUSY \<and> s' = s)"
  by (auto simp: i2c_lock_addr_def split: if_splits)

lemma for_each_child_nonzero:
  "for_each_child ds f \<noteq> 0 \<Longrightarrow> \<exists>d\<in>set ds. f d \<noteq> 0"
  by (simp add: for_each_child_zero_iff)

lemma uu_i2c_check_addr_busy_nonzero:
  "uu_i2c_check_addr_busy dev addr \<noteq> 0 \<Longrightarrow>
   \<exists>client. dev = I2C_Client client \<and> uint (i2c_encode_flags_to_addr client) = addr"
  by (cases dev) (auto simp: uu_i2c_check_addr_busy_def i2c_verify_client_def split: if_splits)

lemma i2c_check_mux_children_nonzero:
  "i2c_check_mux_children dev addr \<noteq> 0 \<Longrightarrow>
   \<exists>client. uint (i2c_encode_flags_to_addr client) = addr \<and>
     (dev = I2C_Client client \<or> (\<exists>path. client_on dev path client))"
proof (induction dev addr rule: i2c_check_mux_children.induct)
  case (1 ds addr)
  from "1.prems" obtain d where d: "d \<in> set ds" and nz: "i2c_check_mux_children d addr \<noteq> 0"
    by (auto simp: device_for_each_child_def dest: for_each_child_nonzero)
  from d obtain i where i: "i < length ds" "ds ! i = d"
    by (auto simp: in_set_conv_nth)
  from "1.IH" [of d] d nz obtain client
    where enc: "uint (i2c_encode_flags_to_addr client) = addr"
      and at: "d = I2C_Client client \<or> (\<exists>path. client_on d path client)"
    by auto
  from at show ?case
  proof
    assume "d = I2C_Client client"
    with d have "client_on (I2C_Adapter ds) [] client"
      by (simp add: client_on_def)
    with enc show ?thesis
      by blast
  next
    assume "\<exists>path. client_on d path client"
    then obtain path where "client_on d path client" ..
    with i have "client_on (I2C_Adapter ds) (i # path) client"
      by (simp add: client_on_def)
    with enc show ?thesis
      by blast
  qed
qed (auto dest: uu_i2c_check_addr_busy_nonzero)

lemma adapter_dev_child_client_on:
  assumes "I2C_Client client \<in> set (children (adapter_dev root adapter))"
  shows "client_on root adapter client"
  using assms by (auto simp: adapter_dev_def client_on_def split: option.splits)

lemma i2c_parent_is_butlast:
  "i2c_parent_is_i2c_adapter root adapter = Some p \<Longrightarrow> prefix p adapter"
  by (auto simp: i2c_parent_is_i2c_adapter_def prefixeq_butlast
      split: if_splits option.splits device.splits)

lemma i2c_check_mux_parents_nonzero:
  "i2c_check_mux_parents root adapter addr \<noteq> 0 \<Longrightarrow>
   \<exists>q client. prefix q adapter \<and> client_on root q client \<and>
      uint (i2c_encode_flags_to_addr client) = addr"
proof (induction root adapter addr rule: i2c_check_mux_parents.induct)
  case (1 root adapter addr)
  let ?here = "device_for_each_child (adapter_dev root adapter) (\<lambda>dev. uu_i2c_check_addr_busy dev addr)"
  show ?case
  proof (cases "?here = 0")
    case False
    then obtain d where "d \<in> set (children (adapter_dev root adapter))"
      and "uu_i2c_check_addr_busy d addr \<noteq> 0"
      by (auto simp: device_for_each_child_def dest: for_each_child_nonzero)
    then obtain client where "I2C_Client client \<in> set (children (adapter_dev root adapter))"
      and enc: "uint (i2c_encode_flags_to_addr client) = addr"
      by (auto dest: uu_i2c_check_addr_busy_nonzero)
    then have "client_on root adapter client"
      by (auto intro: adapter_dev_child_client_on)
    with enc show ?thesis
      by blast
  next
    case True
    with "1.prems" obtain p where par: "i2c_parent_is_i2c_adapter root adapter = Some p"
      and nz: "i2c_check_mux_parents root p addr \<noteq> 0"
      by (subst (asm) i2c_check_mux_parents.simps) (auto simp: Let_def split: option.splits)
    from "1.IH" [OF refl refl par True nz]
    obtain q client where q: "prefix q p" "client_on root q client"
      "uint (i2c_encode_flags_to_addr client) = addr"
      by blast
    from q(1) i2c_parent_is_butlast [OF par] have "prefix q adapter"
      by (rule prefix_order.order_trans)
    with q show ?thesis
      by blast
  qed
qed

lemma client_on_below:
  assumes d: "d \<in> set (children (adapter_dev root adapter))"
    and on: "client_on d path client"
  shows "\<exists>q. prefix adapter q \<and> client_on root q client"
proof -
  from d obtain dev where dev: "device_at root adapter = Some dev" and "d \<in> set (children dev)"
    by (auto simp: adapter_dev_def split: option.splits)
  then obtain i where i: "i < length (children dev)" "children dev ! i = d"
    by (auto simp: in_set_conv_nth)
  with dev on have "client_on root (adapter @ i # path) client"
    by (simp add: client_on_def device_at_append)
  then show ?thesis
    by (intro exI [of _ "adapter @ i # path"]) simp
qed

lemma i2c_check_addr_busy_nonzero:
  assumes "i2c_check_addr_busy root adapter addr \<noteq> 0"
  shows "\<exists>q client. (prefix q adapter \<or> prefix adapter q) \<and> client_on root q client \<and>
           uint (i2c_encode_flags_to_addr client) = addr"
proof (cases "(case i2c_parent_is_i2c_adapter root adapter of
                Some p \<Rightarrow> i2c_check_mux_parents root p addr | None \<Rightarrow> 0) = 0")
  case False
  then obtain p where par: "i2c_parent_is_i2c_adapter root adapter = Some p"
    and nz: "i2c_check_mux_parents root p addr \<noteq> 0"
    by (auto split: option.splits)
  from i2c_check_mux_parents_nonzero [OF nz]
  obtain q client where q: "prefix q p" "client_on root q client"
    "uint (i2c_encode_flags_to_addr client) = addr"
    by blast
  from q(1) i2c_parent_is_butlast [OF par] have "prefix q adapter"
    by (rule prefix_order.order_trans)
  with q show ?thesis
    by blast
next
  case True
  with assms have "device_for_each_child (adapter_dev root adapter)
                (\<lambda>dev. i2c_check_mux_children dev addr) \<noteq> 0"
    by (simp add: i2c_check_addr_busy_def Let_def)
  then obtain d where d: "d \<in> set (children (adapter_dev root adapter))"
    and nz: "i2c_check_mux_children d addr \<noteq> 0"
    by (auto simp: device_for_each_child_def dest: for_each_child_nonzero)
  from i2c_check_mux_children_nonzero [OF nz] obtain client
    where enc: "uint (i2c_encode_flags_to_addr client) = addr"
      and at: "d = I2C_Client client \<or> (\<exists>path. client_on d path client)"
    by auto
  from at show ?thesis
  proof
    assume "d = I2C_Client client"
    with d have "client_on root adapter client"
      by (auto intro: adapter_dev_child_client_on)
    with enc show ?thesis
      by blast
  next
    assume "\<exists>path. client_on d path client"
    then obtain path where "client_on d path client" ..
    from client_on_below [OF d this] enc show ?thesis
      by blast
  qed
qed


lemma i2c_check_addr_busy_iff:
  assumes "device_at root adapter = Some dev"
  shows "i2c_check_addr_busy root adapter addr \<noteq> 0 \<longleftrightarrow>
     (\<exists>q client. client_on root q client \<and> (prefix q adapter \<or> prefix adapter q) \<and>
        uint (i2c_encode_flags_to_addr client) = addr)"
proof
  assume "i2c_check_addr_busy root adapter addr \<noteq> 0"
  from i2c_check_addr_busy_nonzero [OF this]
  show "\<exists>q client. client_on root q client \<and> (prefix q adapter \<or> prefix adapter q) \<and>
        uint (i2c_encode_flags_to_addr client) = addr"
    by blast
next
  assume "\<exists>q client. client_on root q client \<and> (prefix q adapter \<or> prefix adapter q) \<and>
        uint (i2c_encode_flags_to_addr client) = addr"
  then obtain q client where "client_on root q client"
    and "uint (i2c_encode_flags_to_addr client) = addr"
    and "prefix q adapter \<or> prefix adapter q"
    by blast
  then have "i2c_check_addr_busy root adapter addr = - EBUSY"
    using assms by (rule i2c_check_addr_busy_same_branch)
  then show "i2c_check_addr_busy root adapter addr \<noteq> 0"
    by (simp add: EBUSY_def)
qed

lemma busy_client_not_created:
  assumes busy: "i2c_check_addr_busy (devices s) adap
                   (uint (i2c_encode_flags_to_addr (client_of_info info))) \<noteq> 0"
  shows "(\<exists>e. i2c_new_client_device env s adap info = (ERR_PTR e, s)) \<and>
         (kzalloc_ok env \<and> i2c_check_addr_validity (info_addr info) (info_flags info) = 0 \<longrightarrow>
            i2c_new_client_device env s adap info = (ERR_PTR (- EBUSY), s))"
proof -
  obtain status s' where lock: "i2c_lock_addr s adap (info_addr info) (info_flags info) = (status, s')"
    by (cases "i2c_lock_addr s adap (info_addr info) (info_flags info)")
  from lock have dev: "devices s' = devices s"
    by (rule i2c_lock_addr_devices)
  from busy i2c_check_addr_busy_range [of "devices s" adap]
  have busy: "i2c_check_addr_busy (devices s) adap
                (uint (i2c_encode_flags_to_addr (client_of_info info))) = - EBUSY"
    by blast
  show ?thesis
  proof (cases "status = 0")
    case True
    with lock have "i2c_unlock_addr s' adap (info_addr info) (info_flags info) = s"
      by (simp add: lock_unlock_addr)
    with lock True busy dev show ?thesis
      by (simp add: i2c_new_client_device_def Let_def EBUSY_def client_of_info_def)
  next
    case False
    with i2c_lock_addr_status [OF lock] have "status = - EBUSY" "s' = s"
      by simp_all
    with lock show ?thesis
      by (simp add: i2c_new_client_device_def Let_def EBUSY_def)
  qed
qed

lemma free_client_created:
  assumes free: "i2c_check_addr_busy (devices s) adap
                   (uint (i2c_encode_flags_to_addr (client_of_info info))) = 0"
    and mem: "kzalloc_ok env"
    and valid: "i2c_check_addr_validity (info_addr info) (info_flags info) = 0"
    and unlocked: "info_flags info AND I2C_CLIENT_TEN \<noteq> 0 \<or>
                   unat (info_addr info) \<notin> addrs_in_instantiation s adap"
  shows "i2c_new_client_device env s adap info =
     (if info_swnode info \<and> device_add_software_node_status env \<noteq> 0
      then (ERR_PTR (device_add_software_node_status env), s)
      else if device_register_status env \<noteq> 0
      then (ERR_PTR (device_register_status env), s)
      else (PTR (adap @ [length (children (adapter_dev (devices s) adap))]),
            s\<lparr>devices := device_add (devices s) adap (I2C_Client (client_of_info info))\<rparr>))"
proof -
  from unlocked have "\<exists>s'. i2c_lock_addr s adap (info_addr info) (info_flags info) = (0, s')"
    by (cases "info_flags info AND I2C_CLIENT_TEN = 0") (simp_all add: i2c_lock_addr_def)
  then obtain s' where lock: "i2c_lock_addr s adap (info_addr info) (info_flags info) = (0, s')" ..
  from lock have dev: "devices s' = devices s"
    by (rule i2c_lock_addr_devices)
  from lock have unlock: "i2c_unlock_addr s' adap (info_addr info) (info_flags info) = s"
    by (rule lock_unlock_addr)
  have unlock': "i2c_unlock_addr (s'\<lparr>devices := d\<rparr>) adap (info_addr info) (info_flags info) =
      s\<lparr>devices := d\<rparr>" for d
    using unlock by (auto simp: i2c_unlock_addr_def split: if_splits)
  from lock free mem valid dev unlock unlock' show ?thesis
    by (simp add: i2c_new_client_device_def Let_def client_of_info_def)
qed

text \<open>
  Claim C1, as stated, fails: two adapters below a shared ancestor, neither above the
  other, may each hold a client with the same encoded address. In the example the
  EEPROM sits on the first mux channel, and a client with the same address is created
  on the second channel; both channels descend from the root.
\<close>

theorem siblings_may_share_address:
  "client_on (devices mux_bus) [0] eeprom \<and>
   device_at (devices mux_bus) [1] = Some (I2C_Adapter []) \<and>
   i2c_encode_flags_to_addr eeprom = i2c_encode_flags_to_addr (client_of_info eeprom_info) \<and>
   i2c_new_client_device ok_env mux_bus [1] eeprom_info =
     (PTR [1, 0],
      mux_bus\<lparr>devices := I2C_Adapter [I2C_Adapter [I2C_Client eeprom],
                                        I2C_Adapter [I2C_Client eeprom]]\<rparr>)"
  by (simp add: bus_example_defs new_client_eval i2c_check_mux_parents.simps fun_eq_iff)

text \<open>
  Claim C1, amended. The address check of \<^verbatim>\<open>i2c_new_client_device\<close> finds the
  address busy exactly when an existing client with the same encoded address sits on
  the adapter of the new client, on an adapter above it or on an adapter below it.
  When there is such a client, \<^verbatim>\<open>i2c_new_client_device\<close> returns an error pointer
  and the state is as before: no client is registered; when the allocation succeeds and
  the new address is valid, the error is \<^verbatim>\<open>-EBUSY\<close>. When there is no such client
  (clients on adapters that only share an ancestor with the adapter of the new client
  do not count), the allocation succeeds, the address is valid and no other creation
  holds it on the adapter, the result is the driver core's: its error if it reports one
  and the state as before, and otherwise the new client as the last child of the
  adapter.
\<close>

theorem new_client_busy_iff_same_branch:
  assumes adap: "device_at (devices s) adap = Some dev"
  shows "(i2c_check_addr_busy (devices s) adap
            (uint (i2c_encode_flags_to_addr (client_of_info info))) \<noteq> 0 \<longleftrightarrow>
          (\<exists>q c1. client_on (devices s) q c1 \<and> (prefix q adap \<or> prefix adap q) \<and>
             i2c_encode_flags_to_addr c1 = i2c_encode_flags_to_addr (client_of_info info))) \<and>
         ((\<exists>q c1. client_on (devices s) q c1 \<and> (prefix q adap \<or> prefix adap q) \<and>
             i2c_encode_flags_to_addr c1 = i2c_encode_flags_to_addr (client_of_info info)) \<longrightarrow>
          (\<exists>e. i2c_new_client_device env s adap info = (ERR_PTR e, s)) \<and>
          (kzalloc_ok env \<and> i2c_check_addr_validity (info_addr info) (info_flags info) = 0 \<longrightarrow>
             i2c_new_client_device env s adap info = (ERR_PTR (- EBUSY), s))) \<and>
         (\<not> (\<exists>q c1. client_on (devices s) q c1 \<and> (prefix q adap \<or> prefix adap q) \<and>
             i2c_encode_flags_to_addr c1 = i2c_encode_flags_to_addr (client_of_info info)) \<and>
          kzalloc_ok env \<and> i2c_check_addr_validity (info_addr info) (info_flags info) = 0 \<and>
          (info_flags info AND I2C_CLIENT_TEN \<noteq> 0 \<or>
           unat (info_addr info) \<notin> addrs_in_instantiation s adap) \<longrightarrow>
          i2c_new_client_device env s adap info =
            (if info_swnode info \<and> device_add_software_node_status env \<noteq> 0
             then (ERR_PTR (device_add_software_node_status env), s)
             else if device_register_status env \<noteq> 0
             then (ERR_PTR (device_register_status env), s)
             else (PTR (adap @ [length (children (adapter_dev (devices s) adap))]),
                   s\<lparr>devices := device_add (devices s) adap (I2C_Client (client_of_info info))\<rparr>)))"
proof -
  let ?addr = "uint (i2c_encode_flags_to_addr (client_of_info info))"
  let ?clash = "\<exists>q c1. client_on (devices s) q c1 \<and> (prefix q adap \<or> prefix adap q) \<and>
             i2c_encode_flags_to_addr c1 = i2c_encode_flags_to_addr (client_of_info info)"
  have iff: "i2c_check_addr_busy (devices s) adap ?addr \<noteq> 0 \<longleftrightarrow> ?clash"
    unfolding i2c_check_addr_busy_iff [OF adap] by (simp add: word_uint_eq_iff)
  moreover have "?clash \<longrightarrow>
          (\<exists>e. i2c_new_client_device env s adap info = (ERR_PTR e, s)) \<and>
          (kzalloc_ok env \<and> i2c_check_addr_validity (info_addr info) (info_flags info) = 0 \<longrightarrow>
             i2c_new_client_device env s adap info = (ERR_PTR (- EBUSY), s))"
    using iff busy_client_not_created [of s adap info env] by blast
  moreover have "\<not> ?clash \<and>
          kzalloc_ok env \<and> i2c_check_addr_validity (info_addr info) (info_flags info) = 0 \<and>
          (info_flags info AND I2C_CLIENT_TEN \<noteq> 0 \<or>
           unat (info_addr info) \<notin> addrs_in_instantiation s adap) \<longrightarrow>
          i2c_new_client_device env s adap info =
            (if info_swnode info \<and> device_add_software_node_status env \<noteq> 0
             then (ERR_PTR (device_add_software_node_status env), s)
             else if device_register_status env \<noteq> 0
             then (ERR_PTR (device_register_status env), s)
             else (PTR (adap @ [length (children (adapter_dev (devices s) adap))]),
                   s\<lparr>devices := device_add (devices s) adap (I2C_Client (client_of_info info))\<rparr>))"
    using iff free_client_created [of s adap info env] by blast
  ultimately show ?thesis
    by blast
qed


theorem new_client_busy_iff_same_branch_witness:
  "device_at (devices mux_bus) [0] = Some (I2C_Adapter [I2C_Client eeprom]) \<and>
   client_on (devices mux_bus) [0] eeprom \<and>
   i2c_new_client_device ok_env mux_bus [0] eeprom_info = (ERR_PTR (- EBUSY), mux_bus) \<and>
   i2c_new_client_device ok_env mux_bus [] eeprom_info = (ERR_PTR (- EBUSY), mux_bus) \<and>
   client_on (devices trunk_bus) [] eeprom \<and>
   i2c_new_client_device ok_env trunk_bus [1] eeprom_info = (ERR_PTR (- EBUSY), trunk_bus) \<and>
   device_at (devices mux_bus) [1] = Some (I2C_Adapter []) \<and>
   \<not> (\<exists>q c1. client_on (devices mux_bus) q c1 \<and> (prefix q [1] \<or> prefix [1] q) \<and>
         i2c_encode_flags_to_addr c1 = i2c_encode_flags_to_addr (client_of_info eeprom_info)) \<and>
   i2c_new_client_device ok_env mux_bus [1] eeprom_info =
     (PTR [1, 0],
      mux_bus\<lparr>devices := I2C_Adapter [I2C_Adapter [I2C_Client eeprom],
                                        I2C_Adapter [I2C_Client eeprom]]\<rparr>)"
proof -
  let ?clash = "\<lambda>s adap. \<exists>q c1. client_on (devices s) q c1 \<and> (prefix q adap \<or> prefix adap q) \<and>
         i2c_encode_flags_to_addr c1 = i2c_encode_flags_to_addr (client_of_info eeprom_info)"
  have on: "client_on (devices mux_bus) [0] eeprom"
    by (simp add: bus_example_defs)
  have on': "client_on (devices trunk_bus) [] eeprom"
    by (simp add: bus_example_defs)
  have enc: "i2c_encode_flags_to_addr eeprom = i2c_encode_flags_to_addr (client_of_info eeprom_info)"
    by (simp add: bus_example_defs i2c_encode_flags_to_addr_def)
  have env: "kzalloc_ok ok_env \<and>
     i2c_check_addr_validity (info_addr eeprom_info) (info_flags eeprom_info) = 0"
    by (simp add: bus_example_defs i2c_check_addr_validity_def I2C_CLIENT_TEN_def)
  have at0: "device_at (devices mux_bus) [0] = Some (I2C_Adapter [I2C_Client eeprom])"
    by (simp add: mux_bus_def)
  have at1: "device_at (devices mux_bus) [1] = Some (I2C_Adapter [])"
    by (simp add: mux_bus_def)
  have at2: "device_at (devices trunk_bus) [1] = Some (I2C_Adapter [])"
    by (simp add: trunk_bus_def)
  from on enc have "?clash mux_bus [0]"
    by (intro exI [of _ "[0]"] exI [of _ eeprom]) simp
  with new_client_busy_iff_same_branch [OF at0, of eeprom_info ok_env] env
  have a: "i2c_new_client_device ok_env mux_bus [0] eeprom_info = (ERR_PTR (- EBUSY), mux_bus)"
    by blast
  from on enc have "?clash mux_bus []"
    by (intro exI [of _ "[0]"] exI [of _ eeprom]) simp
  with new_client_busy_iff_same_branch [of mux_bus "[]" "devices mux_bus" eeprom_info ok_env] env
  have b: "i2c_new_client_device ok_env mux_bus [] eeprom_info = (ERR_PTR (- EBUSY), mux_bus)"
    by simp
  from on' enc have "?clash trunk_bus [1]"
    by (intro exI [of _ "[]"] exI [of _ eeprom]) simp
  with new_client_busy_iff_same_branch [OF at2, of eeprom_info ok_env] env
  have c: "i2c_new_client_device ok_env trunk_bus [1] eeprom_info = (ERR_PTR (- EBUSY), trunk_bus)"
    by blast
  have "i2c_check_addr_busy (devices mux_bus) [1]
          (uint (i2c_encode_flags_to_addr (client_of_info eeprom_info))) = 0"
    by (simp add: bus_example_defs new_client_eval i2c_check_mux_parents.simps)
  with new_client_busy_iff_same_branch [OF at1, of eeprom_info ok_env]
  have free: "\<not> ?clash mux_bus [1]"
    by blast
  have "info_flags eeprom_info AND I2C_CLIENT_TEN \<noteq> 0 \<or>
        unat (info_addr eeprom_info) \<notin> addrs_in_instantiation mux_bus [1]"
    by (simp add: bus_example_defs)
  with free env new_client_busy_iff_same_branch [OF at1, of eeprom_info ok_env]
  have "i2c_new_client_device ok_env mux_bus [1] eeprom_info =
     (if info_swnode eeprom_info \<and> device_add_software_node_status ok_env \<noteq> 0
      then (ERR_PTR (device_add_software_node_status ok_env), mux_bus)
      else if device_register_status ok_env \<noteq> 0
      then (ERR_PTR (device_register_status ok_env), mux_bus)
      else (PTR ([1] @ [length (children (adapter_dev (devices mux_bus) [1]))]),
            mux_bus\<lparr>devices := device_add (devices mux_bus) [1]
                                  (I2C_Client (client_of_info eeprom_info))\<rparr>))"
    by blast
  then have d: "i2c_new_client_device ok_env mux_bus [1] eeprom_info =
     (PTR [1, 0],
      mux_bus\<lparr>devices := I2C_Adapter [I2C_Adapter [I2C_Client eeprom],
                                        I2C_Adapter [I2C_Client eeprom]]\<rparr>)"
    by (simp add: bus_example_defs adapter_dev_def)
  from on on' at0 at1 a b c free d show ?thesis
    by blast
qed

section \<open>Unregistering nothing\<close>

text \<open>
  Claim C10. \<^verbatim>\<open>i2c_unregister_device\<close> on \<^verbatim>\<open>NULL\<close> or on an error pointer
  returns at once: the state is unchanged, whatever the driver core would do on a
  removal. In particular the pointer of a failed \<^verbatim>\<open>i2c_new_client_device\<close> can be
  handed to it.
\<close>

theorem unregister_null_or_error_is_noop:
  "i2c_unregister_device unregister NULL s = s \<and>
   i2c_unregister_device unregister (ERR_PTR e) s = s \<and>
   (IS_ERR_OR_NULL (fst (i2c_new_client_device env bus adap info)) \<longrightarrow>
      i2c_unregister_device device_unregister (fst (i2c_new_client_device env bus adap info))
        (snd (i2c_new_client_device env bus adap info)) =
      snd (i2c_new_client_device env bus adap info))"
  by (simp add: i2c_unregister_device_def IS_ERR_OR_NULL_def)

theorem unregister_null_or_error_is_noop_witness:
  "IS_ERR_OR_NULL (fst (i2c_new_client_device ok_env mux_bus [0] eeprom_info)) \<and>
   i2c_unregister_device device_unregister (fst (i2c_new_client_device ok_env mux_bus [0] eeprom_info))
     mux_bus = mux_bus \<and>
   i2c_unregister_device device_unregister (PTR [0, 0]) mux_bus =
     mux_bus\<lparr>devices := I2C_Adapter [I2C_Adapter [], I2C_Adapter []]\<rparr>"
proof -
  have r: "i2c_new_client_device ok_env mux_bus [0] eeprom_info = (ERR_PTR (- EBUSY), mux_bus)"
    by (simp add: bus_example_defs new_client_eval i2c_check_mux_parents.simps fun_eq_iff)
  then have h: "IS_ERR_OR_NULL (fst (i2c_new_client_device ok_env mux_bus [0] eeprom_info))"
    by (simp add: IS_ERR_OR_NULL_def)
  have v: "i2c_unregister_device device_unregister (PTR [0, 0]) mux_bus =
     mux_bus\<lparr>devices := I2C_Adapter [I2C_Adapter [], I2C_Adapter []]\<rparr>"
    by (simp add: i2c_unregister_device_def IS_ERR_OR_NULL_def device_unregister_def mux_bus_def)
  from unregister_null_or_error_is_noop [of device_unregister mux_bus _ ok_env mux_bus "[0]" eeprom_info,
      THEN conjunct2, THEN conjunct2, rule_format, OF h] r h v
  show ?thesis
    by simp
qed

section \<open>Removing an adapter twice\<close>

text \<open>
  Claim C8. When the bus number of an adapter does not lead to that adapter in the idr,
  \<^verbatim>\<open>i2c_del_adapter\<close> returns with the state unchanged: the registry, the drivers'
  lists and the adapter's clients are as before. After a call of
  \<^verbatim>\<open>i2c_del_adapter\<close> that is the case, so a second call changes nothing.
\<close>

theorem del_adapter_twice_is_noop:
  "(i2c_adapter_idr s (nr (adapters s adap)) \<noteq> Some adap \<longrightarrow> i2c_del_adapter adap s = s) \<and>
   i2c_del_adapter adap (i2c_del_adapter adap s) = i2c_del_adapter adap s"
proof -
  have guard: "i2c_del_adapter adap t = t"
    if "i2c_adapter_idr t (nr (adapters t adap)) \<noteq> Some adap" for t
    using that by (simp add: i2c_del_adapter_def)
  have "i2c_adapter_idr (i2c_del_adapter adap s) (nr (adapters (i2c_del_adapter adap s) adap))
          \<noteq> Some adap"
    by (simp add: i2c_del_adapter_def Let_def split: prod.splits)
  with guard show ?thesis
    by blast
qed

lemma example_del: "i2c_del_adapter 7 example_core = example_core_deleted"
  by (simp add: i2c_del_adapter_def example_core_def example_core_deleted_def Let_def
      i2c_unregister_device_def IS_ERR_OR_NULL_def device_unregister_client_def
      uu_unregister_client_def uu_unregister_dummy_def i2c_verify_client_def
      eeprom_def dummy_client_def sensor_def fun_eq_iff)

theorem del_adapter_twice_is_noop_witness:
  "i2c_adapter_idr example_core_deleted (nr (adapters example_core_deleted 7)) \<noteq> Some 7 \<and>
   i2c_del_adapter 7 example_core = example_core_deleted \<and>
   i2c_del_adapter 7 example_core_deleted = example_core_deleted"
proof -
  have h: "i2c_adapter_idr example_core_deleted (nr (adapters example_core_deleted 7)) \<noteq> Some 7"
    by (simp add: example_core_deleted_def)
  from del_adapter_twice_is_noop [of example_core_deleted 7, THEN conjunct1, rule_format, OF h]
    h example_del show ?thesis
    by simp
qed

section \<open>Message count in combined mode\<close>










section \<open>The retry loop\<close>

lemma transfer_reaches_loop:
  assumes "passes_checks adap xfer ms num"
  shows "uu_i2c_transfer adap (Some ms) num k =
           (case xfer_loop adap xfer ms num (jiffies k) 0 0 k of
              (ret, k', evs) \<Rightarrow> (ret, adap, k', evs))"
  using assms
  by (auto simp: passes_checks_def uu_i2c_transfer_def uu_i2c_check_suspended_def Let_def
           split: option.splits prod.splits)

lemma xfer_loop_done:
  assumes "try \<le> retries adap" and "invoke_xfer adap xfer ms num k = (r, kn, ev)"
    and "r \<noteq> - EAGAIN"
  shows "xfer_loop adap xfer ms num orig try ret k = (r, kn, [ev])"
  using assms by (subst xfer_loop.simps) simp

lemma xfer_loop_timeout:
  assumes "try \<le> retries adap" and "invoke_xfer adap xfer ms num k = (- EAGAIN, kn, ev)"
    and "time_after (jiffies kn) (orig + word_of_int (timeout adap))"
  shows "xfer_loop adap xfer ms num orig try ret k = (- EAGAIN, kn, [ev])"
  using assms by (subst xfer_loop.simps) simp

lemma xfer_loop_retry:
  assumes "try \<le> retries adap" and "invoke_xfer adap xfer ms num k = (- EAGAIN, kn, ev)"
    and "\<not> time_after (jiffies kn) (orig + word_of_int (timeout adap))"
  shows "xfer_loop adap xfer ms num orig try ret k =
           (case xfer_loop adap xfer ms num orig (try + 1) (- EAGAIN) kn of
              (r, k', evs) \<Rightarrow> (r, k', ev # evs))"
  using assms by (subst xfer_loop.simps) simp

lemma xfer_loop_always_eagain:
  assumes "\<And>k'. fst (invoke_xfer adap xfer ms num k') = - EAGAIN"
    and "try \<le> retries adap"
    and "xfer_loop adap xfer ms num orig try ret k = (r, k', evs)"
  shows "r = - EAGAIN \<and> 1 \<le> length evs \<and> int (length evs) \<le> retries adap + 1 - try \<and>
         (int (length evs) < retries adap + 1 - try \<longrightarrow>
            time_after (jiffies k') (orig + word_of_int (timeout adap)))"
  using assms
proof (induction adap xfer ms num orig "try" ret k arbitrary: r k' evs rule: xfer_loop.induct)
  case (1 adap xfer msgs num orig "try" ret k)
  obtain k1 e1 where inv: "invoke_xfer adap xfer msgs num k = (- EAGAIN, k1, e1)"
    using "1.prems"(1) [of k] by (cases "invoke_xfer adap xfer msgs num k") auto
  show ?case
  proof (cases "time_after (jiffies k1) (orig + word_of_int (timeout adap))")
    case True
    with "1.prems"(2,3) inv show ?thesis
      by (auto simp: xfer_loop_timeout)
  next
    case False
    show ?thesis
    proof (cases "try + 1 \<le> retries adap")
      case True
      obtain r2 k2 evs2 where rec: "xfer_loop adap xfer msgs num orig (try + 1) (- EAGAIN) k1 = (r2, k2, evs2)"
        by (cases "xfer_loop adap xfer msgs num orig (try + 1) (- EAGAIN) k1")
      from "1.IH" [OF "1.prems"(2) refl inv [symmetric] refl _ False "1.prems"(1) True rec]
      have "r2 = - EAGAIN \<and> 1 \<le> length evs2 \<and> int (length evs2) \<le> retries adap + 1 - (try + 1) \<and>
         (int (length evs2) < retries adap + 1 - (try + 1) \<longrightarrow>
            time_after (jiffies k2) (orig + word_of_int (timeout adap)))"
        by simp
      moreover from "1.prems"(2,3) inv False rec have "r = r2" "k' = k2" "evs = e1 # evs2"
        by (simp_all add: xfer_loop_retry)
      ultimately show ?thesis
        by auto
    next
      case exhausted: False
      then have "xfer_loop adap xfer msgs num orig (try + 1) (- EAGAIN) k1 = (- EAGAIN, k1, [])"
        by (subst xfer_loop.simps) simp
      with "1.prems"(2,3) inv False exhausted show ?thesis
        by (auto simp: xfer_loop_retry)
    qed
  qed
qed

lemma length_attempts [simp]: "length (attempts adap xfer ms num n k) = n"
  by (induction n arbitrary: k) (auto split: prod.splits)

lemma attempts_Suc:
  "invoke_xfer adap xfer ms num k = (r, kn, ev) \<Longrightarrow>
   attempts adap xfer ms num (Suc n) k = (r, kn, ev) # attempts adap xfer ms num n kn"
  by simp

declare attempts.simps(2) [simp del]

lemma xfer_loop_run:
  assumes "ends_retries (orig + word_of_int (timeout adap)) (retries adap + 1 - try)
             (attempts adap xfer ms num n k)"
  shows "xfer_loop adap xfer ms num orig try ret k =
           (fst (last (attempts adap xfer ms num n k)),
            fst (snd (last (attempts adap xfer ms num n k))),
            map (\<lambda>a. snd (snd a)) (attempts adap xfer ms num n k))"
  using assms
proof (induction n arbitrary: "try" ret k)
  case 0
  then show ?case
    by (simp add: ends_retries_def)
next
  case (Suc n)
  let ?limit = "orig + word_of_int (timeout adap)"
  obtain r kn ev where inv: "invoke_xfer adap xfer ms num k = (r, kn, ev)"
    by (cases "invoke_xfer adap xfer ms num k")
  note as = attempts_Suc [OF inv]
  from Suc.prems have le: "try \<le> retries adap"
    by (simp add: ends_retries_def as)
  show ?case
  proof (cases n)
    case 0
    with Suc.prems have stop: "r \<noteq> - EAGAIN \<or> time_after (jiffies kn) ?limit \<or> try = retries adap"
      by (auto simp: ends_retries_def as)
    show ?thesis
    proof (cases "r \<noteq> - EAGAIN")
      case True
      with le inv 0 as show ?thesis
        by (simp add: xfer_loop_done)
    next
      case eagain: False
      show ?thesis
      proof (cases "time_after (jiffies kn) ?limit")
        case True
        with le inv eagain 0 show ?thesis
          by (simp add: xfer_loop_timeout as)
      next
        case False
        with stop eagain have "try = retries adap"
          by simp
        then have "xfer_loop adap xfer ms num orig (try + 1) (- EAGAIN) kn = (- EAGAIN, kn, [])"
          by (subst xfer_loop.simps) simp
        with le inv eagain False 0 show ?thesis
          by (simp add: xfer_loop_retry as)
      qed
    qed
  next
    case (Suc m)
    then have ne: "attempts adap xfer ms num n kn \<noteq> []"
      by (metis length_attempts length_0_conv nat.distinct(1))
    with Suc.prems have first: "r = - EAGAIN" "\<not> time_after (jiffies kn) ?limit"
      and rest: "ends_retries ?limit (retries adap + 1 - (try + 1)) (attempts adap xfer ms num n kn)"
      by (auto simp: ends_retries_def as)
    from Suc.IH [OF rest, of "- EAGAIN"] le inv first ne show ?thesis
      by (simp add: xfer_loop_retry as)
  qed
qed

lemma xfer_loop_stops:
  assumes "try \<le> retries adap"
  shows "\<exists>n. ends_retries limit (retries adap + 1 - try) (attempts adap xfer ms num n k)"
  using assms
proof (induction "nat (retries adap - try)" arbitrary: "try" k)
  case 0
  obtain r kn ev where inv: "invoke_xfer adap xfer ms num k = (r, kn, ev)"
    by (cases "invoke_xfer adap xfer ms num k")
  from 0 have "try = retries adap"
    by simp
  with inv have "ends_retries limit (retries adap + 1 - try) (attempts adap xfer ms num 1 k)"
    by (simp add: ends_retries_def attempts_Suc)
  then show ?case ..
next
  case (Suc d)
  obtain r kn ev where inv: "invoke_xfer adap xfer ms num k = (r, kn, ev)"
    by (cases "invoke_xfer adap xfer ms num k")
  show ?case
  proof (cases "r \<noteq> - EAGAIN \<or> time_after (jiffies kn) limit")
    case True
    with inv Suc.prems
    have "ends_retries limit (retries adap + 1 - try) (attempts adap xfer ms num 1 k)"
      by (auto simp: ends_retries_def attempts_Suc)
    then show ?thesis ..
  next
    case False
    from Suc.hyps(2) have "d = nat (retries adap - (try + 1))" "try + 1 \<le> retries adap"
      by simp_all
    from Suc.hyps(1) [OF this, of kn] obtain n
      where n: "ends_retries limit (retries adap + 1 - (try + 1)) (attempts adap xfer ms num n kn)"
      by blast
    then have "attempts adap xfer ms num n kn \<noteq> []"
      by (simp add: ends_retries_def)
    with n False
    have "ends_retries limit (retries adap + 1 - try) (attempts adap xfer ms num (Suc n) k)"
      by (auto simp: ends_retries_def attempts_Suc [OF inv])
    then show ?thesis ..
  qed
qed

text \<open>
  Claim C2, as stated, fails: a primitive that loses arbitration twice and then
  succeeds is not invoked three times when the timeout has run out after the first
  attempt. In the example each attempt takes 200 ticks and the timeout is 100: the
  transfer ends after one invocation with \<^verbatim>\<open>-EAGAIN\<close>, with 3 retries configured.
\<close>

theorem retry_cut_short_by_timeout:
  "2 \<le> retries (example_adapter (flaky_xfer 200)) \<and>
   fst (flaky_xfer 200 [write_msg] 1 boot) = - EAGAIN \<and>
   fst (flaky_xfer 200 [write_msg] 1 (snd (flaky_xfer 200 [write_msg] 1 boot))) = - EAGAIN \<and>
   fst (flaky_xfer 200 [write_msg] 1
          (snd (flaky_xfer 200 [write_msg] 1 (snd (flaky_xfer 200 [write_msg] 1 boot))))) = 1 \<and>
   uu_i2c_transfer (example_adapter (flaky_xfer 200)) (Some [write_msg]) 1 boot =
     (- EAGAIN, example_adapter (flaky_xfer 200), boot\<lparr>jiffies := 200, hw := 1\<rparr>, [Master_xfer])"
proof -
  have "passes_checks (example_adapter (flaky_xfer 200)) (flaky_xfer 200) [write_msg] 1"
    by (simp add: example_defs)
  then have "uu_i2c_transfer (example_adapter (flaky_xfer 200)) (Some [write_msg]) 1 boot =
     (- EAGAIN, example_adapter (flaky_xfer 200), boot\<lparr>jiffies := 200, hw := 1\<rparr>, [Master_xfer])"
    by (simp add: transfer_reaches_loop xfer_loop_timeout example_defs)
  then show ?thesis
    by (simp add: example_defs EAGAIN_def)
qed

text \<open>
  Claim C2, amended. For a transfer that passes the checks before the loop:
  when the primitive returns \<^verbatim>\<open>-EAGAIN\<close> twice and then another value, the retry
  count is at least 2 and the timeout has not run out after the first nor after the
  second attempt, \<^verbatim>\<open>__i2c_transfer\<close> returns that value after exactly 3 invocations;
  when the primitive always returns \<^verbatim>\<open>-EAGAIN\<close> and the retry count is not negative,
  the result is \<^verbatim>\<open>-EAGAIN\<close> after at most \<open>retries + 1\<close> invocations, and after
  fewer only when the timeout has run out. In general the loop stops at the first
  attempt, of at most \<open>retries + 1\<close>, that returns a value other than
  \<^verbatim>\<open>-EAGAIN\<close>, or that ends after the timeout has run out since the first attempt,
  or that is attempt number \<open>retries + 1\<close>: the transfer returns the value of that
  attempt and has invoked the primitive for that attempt and the ones before it, and no
  more. With a retry count that is not negative there is such an attempt.
\<close>

theorem transfer_retry_policy:
  assumes "passes_checks adap xfer ms num"
  shows "(2 \<le> retries adap \<and>
          invoke_xfer adap xfer ms num k = (- EAGAIN, k1, e1) \<and>
          \<not> time_after (jiffies k1) (deadline adap k) \<and>
          invoke_xfer adap xfer ms num k1 = (- EAGAIN, k2, e2) \<and>
          \<not> time_after (jiffies k2) (deadline adap k) \<and>
          invoke_xfer adap xfer ms num k2 = (r, k3, e3) \<and> r \<noteq> - EAGAIN \<longrightarrow>
            uu_i2c_transfer adap (Some ms) num k = (r, adap, k3, [e1, e2, e3])) \<and>
         (0 \<le> retries adap \<and> (\<forall>k'. fst (invoke_xfer adap xfer ms num k') = - EAGAIN) \<longrightarrow>
            (case uu_i2c_transfer adap (Some ms) num k of
               (ret, adap', k', evs) \<Rightarrow>
                 ret = - EAGAIN \<and> 1 \<le> length evs \<and> int (length evs) \<le> retries adap + 1 \<and>
                 (int (length evs) < retries adap + 1 \<longrightarrow>
                    time_after (jiffies k') (deadline adap k)))) \<and>
         (ends_retries (deadline adap k) (retries adap + 1) (attempts adap xfer ms num n k) \<longrightarrow>
            uu_i2c_transfer adap (Some ms) num k =
              (fst (last (attempts adap xfer ms num n k)), adap,
               fst (snd (last (attempts adap xfer ms num n k))),
               map (\<lambda>a. snd (snd a)) (attempts adap xfer ms num n k))) \<and>
         (0 \<le> retries adap \<longrightarrow>
            (\<exists>n. ends_retries (deadline adap k) (retries adap + 1)
                   (attempts adap xfer ms num n k)))"
proof (intro conjI impI)
  assume a: "2 \<le> retries adap \<and>
          invoke_xfer adap xfer ms num k = (- EAGAIN, k1, e1) \<and>
          \<not> time_after (jiffies k1) (deadline adap k) \<and>
          invoke_xfer adap xfer ms num k1 = (- EAGAIN, k2, e2) \<and>
          \<not> time_after (jiffies k2) (deadline adap k) \<and>
          invoke_xfer adap xfer ms num k2 = (r, k3, e3) \<and> r \<noteq> - EAGAIN"
  then have "xfer_loop adap xfer ms num (jiffies k) 2 (- EAGAIN) k2 = (r, k3, [e3])"
    by (intro xfer_loop_done) simp_all
  with a have "xfer_loop adap xfer ms num (jiffies k) 1 (- EAGAIN) k1 = (r, k3, [e2, e3])"
    by (subst xfer_loop_retry [where kn = k2 and ev = e2]) (simp_all add: deadline_def)
  with a have "xfer_loop adap xfer ms num (jiffies k) 0 0 k = (r, k3, [e1, e2, e3])"
    by (subst xfer_loop_retry [where kn = k1 and ev = e1]) (simp_all add: deadline_def)
  then show "uu_i2c_transfer adap (Some ms) num k = (r, adap, k3, [e1, e2, e3])"
    by (simp add: transfer_reaches_loop [OF assms])
next
  assume a: "0 \<le> retries adap \<and> (\<forall>k'. fst (invoke_xfer adap xfer ms num k') = - EAGAIN)"
  obtain ret k' evs where l: "xfer_loop adap xfer ms num (jiffies k) 0 0 k = (ret, k', evs)"
    by (cases "xfer_loop adap xfer ms num (jiffies k) 0 0 k")
  from a have "\<And>k'. fst (invoke_xfer adap xfer ms num k') = - EAGAIN" and "0 \<le> retries adap"
    by simp_all
  from xfer_loop_always_eagain [OF this l] l
  show "case uu_i2c_transfer adap (Some ms) num k of
          (ret, adap', k', evs) \<Rightarrow>
            ret = - EAGAIN \<and> 1 \<le> length evs \<and> int (length evs) \<le> retries adap + 1 \<and>
            (int (length evs) < retries adap + 1 \<longrightarrow> time_after (jiffies k') (deadline adap k))"
    by (simp add: transfer_reaches_loop [OF assms] deadline_def)
next
  assume "ends_retries (deadline adap k) (retries adap + 1) (attempts adap xfer ms num n k)"
  then have "ends_retries (jiffies k + word_of_int (timeout adap)) (retries adap + 1 - 0)
               (attempts adap xfer ms num n k)"
    by (simp add: deadline_def)
  from xfer_loop_run [OF this, of 0]
  show "uu_i2c_transfer adap (Some ms) num k =
              (fst (last (attempts adap xfer ms num n k)), adap,
               fst (snd (last (attempts adap xfer ms num n k))),
               map (\<lambda>a. snd (snd a)) (attempts adap xfer ms num n k))"
    by (simp add: transfer_reaches_loop [OF assms])
next
  assume "0 \<le> retries adap"
  from xfer_loop_stops [OF this, where limit = "deadline adap k" and xfer = xfer and ms = ms and num = num and k = k]
  show "\<exists>n. ends_retries (deadline adap k) (retries adap + 1) (attempts adap xfer ms num n k)"
    by simp
qed

lemmas attempts_eval = attempts.simps ends_retries_def eval_nat_numeral

theorem transfer_retry_policy_witness:
  "passes_checks (example_adapter (flaky_xfer 1)) (flaky_xfer 1) [write_msg] 1 \<and>
   uu_i2c_transfer (example_adapter (flaky_xfer 1)) (Some [write_msg]) 1 boot =
     (1, example_adapter (flaky_xfer 1), boot\<lparr>jiffies := 3, hw := 3\<rparr>,
      [Master_xfer, Master_xfer, Master_xfer]) \<and>
   fst (uu_i2c_transfer (example_adapter stuck_xfer) (Some [write_msg]) 1 boot) = - EAGAIN \<and>
   uu_i2c_transfer (example_adapter stuck_xfer) (Some [write_msg]) 1 boot =
     (- EAGAIN, example_adapter stuck_xfer, boot\<lparr>jiffies := 4, hw := 4\<rparr>,
      [Master_xfer, Master_xfer, Master_xfer, Master_xfer]) \<and>
   uu_i2c_transfer (example_adapter (flaky_xfer 200)) (Some [write_msg]) 1 boot =
     (- EAGAIN, example_adapter (flaky_xfer 200), boot\<lparr>jiffies := 200, hw := 1\<rparr>, [Master_xfer]) \<and>
   uu_i2c_transfer (example_adapter (flaky_xfer 60)) (Some [write_msg]) 1 boot =
     (- EAGAIN, example_adapter (flaky_xfer 60), boot\<lparr>jiffies := 120, hw := 2\<rparr>,
      [Master_xfer, Master_xfer]) \<and>
   uu_i2c_transfer (example_adapter (flaky_xfer 1)) (Some [write_msg]) 1 (boot\<lparr>hw := 1\<rparr>) =
     (1, example_adapter (flaky_xfer 1), boot\<lparr>jiffies := 2, hw := 3\<rparr>,
      [Master_xfer, Master_xfer]) \<and>
   uu_i2c_transfer (example_adapter (flaky_xfer 1)) (Some [write_msg]) 1 (boot\<lparr>hw := 2\<rparr>) =
     (1, example_adapter (flaky_xfer 1), boot\<lparr>jiffies := 1, hw := 3\<rparr>, [Master_xfer]) \<and>
   (\<exists>n. ends_retries (deadline (example_adapter stuck_xfer) boot)
          (retries (example_adapter stuck_xfer) + 1)
          (attempts (example_adapter stuck_xfer) stuck_xfer [write_msg] 1 n boot))"
proof -
  have p1: "passes_checks (example_adapter (flaky_xfer 1)) (flaky_xfer 1) [write_msg] 1"
    by (simp add: example_defs)
  have p2: "passes_checks (example_adapter stuck_xfer) stuck_xfer [write_msg] 1"
    by (simp add: example_defs)
  have p3: "passes_checks (example_adapter (flaky_xfer 200)) (flaky_xfer 200) [write_msg] 1"
    by (simp add: example_defs)
  have p4: "passes_checks (example_adapter (flaky_xfer 60)) (flaky_xfer 60) [write_msg] 1"
    by (simp add: example_defs)
  have a: "uu_i2c_transfer (example_adapter (flaky_xfer 1)) (Some [write_msg]) 1 boot =
     (1, example_adapter (flaky_xfer 1), boot\<lparr>jiffies := 3, hw := 3\<rparr>,
      [Master_xfer, Master_xfer, Master_xfer])"
    by (rule transfer_retry_policy [OF p1, THEN conjunct1, rule_format,
          where ?k1.0 = "boot\<lparr>jiffies := 1, hw := 1\<rparr>" and ?k2.0 = "boot\<lparr>jiffies := 2, hw := 2\<rparr>"])
       (simp add: example_defs EAGAIN_def)
  have b: "fst (uu_i2c_transfer (example_adapter stuck_xfer) (Some [write_msg]) 1 boot) = - EAGAIN"
    using transfer_retry_policy [OF p2, THEN conjunct2, THEN conjunct1, rule_format, of boot]
    by (auto simp: example_defs split: prod.splits)
  have c: "uu_i2c_transfer (example_adapter stuck_xfer) (Some [write_msg]) 1 boot =
     (- EAGAIN, example_adapter stuck_xfer, boot\<lparr>jiffies := 4, hw := 4\<rparr>,
      [Master_xfer, Master_xfer, Master_xfer, Master_xfer])"
    using transfer_retry_policy [OF p2, THEN conjunct2, THEN conjunct2, THEN conjunct1, of boot 4]
    by (simp add: attempts_eval example_defs EAGAIN_def)
  have d: "uu_i2c_transfer (example_adapter (flaky_xfer 200)) (Some [write_msg]) 1 boot =
     (- EAGAIN, example_adapter (flaky_xfer 200), boot\<lparr>jiffies := 200, hw := 1\<rparr>, [Master_xfer])"
    using transfer_retry_policy [OF p3, THEN conjunct2, THEN conjunct2, THEN conjunct1, of boot 1]
    by (simp add: attempts_eval example_defs EAGAIN_def)
  have e: "uu_i2c_transfer (example_adapter (flaky_xfer 60)) (Some [write_msg]) 1 boot =
     (- EAGAIN, example_adapter (flaky_xfer 60), boot\<lparr>jiffies := 120, hw := 2\<rparr>,
      [Master_xfer, Master_xfer])"
    using transfer_retry_policy [OF p4, THEN conjunct2, THEN conjunct2, THEN conjunct1, of boot 2]
    by (simp add: attempts_eval example_defs EAGAIN_def)
  have f: "uu_i2c_transfer (example_adapter (flaky_xfer 1)) (Some [write_msg]) 1 (boot\<lparr>hw := 1\<rparr>) =
     (1, example_adapter (flaky_xfer 1), boot\<lparr>jiffies := 2, hw := 3\<rparr>,
      [Master_xfer, Master_xfer])"
    using transfer_retry_policy [OF p1, THEN conjunct2, THEN conjunct2, THEN conjunct1, of "boot\<lparr>hw := 1\<rparr>" 2]
    by (simp add: attempts_eval example_defs EAGAIN_def)
  have g: "uu_i2c_transfer (example_adapter (flaky_xfer 1)) (Some [write_msg]) 1 (boot\<lparr>hw := 2\<rparr>) =
     (1, example_adapter (flaky_xfer 1), boot\<lparr>jiffies := 1, hw := 3\<rparr>, [Master_xfer])"
    using transfer_retry_policy [OF p1, THEN conjunct2, THEN conjunct2, THEN conjunct1, of "boot\<lparr>hw := 2\<rparr>" 1]
    by (simp add: attempts_eval example_defs EAGAIN_def)
  have h: "\<exists>n. ends_retries (deadline (example_adapter stuck_xfer) boot)
          (retries (example_adapter stuck_xfer) + 1)
          (attempts (example_adapter stuck_xfer) stuck_xfer [write_msg] 1 n boot)"
    using transfer_retry_policy [OF p2, THEN conjunct2, THEN conjunct2, THEN conjunct2, of boot]
    by (simp add: example_adapter_def)
  from p1 a b c d e f g h show ?thesis
    by simp
qed

section \<open>Quirks are checked before the bus is used\<close>

lemma too_many_messages:
  assumes "quirk_flags q AND I2C_AQ_COMB = 0" and "max_num_msgs q = 1"
  shows "i2c_check_for_quirks q ms 2 = - EOPNOTSUPP"
  using assms
  by (simp add: i2c_check_for_quirks_def i2c_quirk_exceeded_def i2c_quirk_error_def)

text \<open>
  Claim C3, as stated, fails: on an adapter that is marked suspended the transfer is
  rejected with \<^verbatim>\<open>-ESHUTDOWN\<close> before the quirks are looked at. The adapter of the
  example declares the quirks \<open>{max_num_msgs: 1}\<close> and is suspended; a batch of 2
  messages returns \<^verbatim>\<open>-ESHUTDOWN\<close>, not \<^verbatim>\<open>-EOPNOTSUPP\<close>.
\<close>

theorem suspended_quirk_violation_is_shutdown:
  "quirks suspended_adapter = Some one_msg_quirks \<and>
   uu_i2c_transfer suspended_adapter (Some [write_msg, write_msg]) 2 boot =
     (- ESHUTDOWN, suspended_adapter\<lparr>locked_flags := 3\<rparr>, boot, [Dev_WARN]) \<and>
   - ESHUTDOWN \<noteq> - EOPNOTSUPP"
  by (simp add: suspended_adapter_def example_defs uu_i2c_transfer_def
      uu_i2c_check_suspended_def ESHUTDOWN_def EOPNOTSUPP_def set_bit_eq_or)

text \<open>
  Claim C3, amended. For an adapter whose quirks allow 1 message per transfer (and do
  not declare combined mode) and a batch of 2 messages, no transfer primitive is
  invoked and the kernel state is unchanged; the result is \<^verbatim>\<open>-EOPNOTSUPP\<close> when
  the adapter is not marked suspended, and \<^verbatim>\<open>-ESHUTDOWN\<close> when it is suspended and
  has a transfer primitive.
\<close>

theorem quirk_violation_before_bus:
  assumes "quirks adap = Some q" and "quirk_flags q AND I2C_AQ_COMB = 0" and "max_num_msgs q = 1"
  shows "case uu_i2c_transfer adap (Some ms) 2 k of
           (ret, adap', k', evs) \<Rightarrow>
             Master_xfer \<notin> set evs \<and> Master_xfer_atomic \<notin> set evs \<and> k' = k \<and>
             (\<not> bit (locked_flags adap) I2C_ALF_IS_SUSPENDED \<longrightarrow> ret = - EOPNOTSUPP) \<and>
             (bit (locked_flags adap) I2C_ALF_IS_SUSPENDED \<and> master_xfer (algo adap) \<noteq> None \<longrightarrow>
                ret = - ESHUTDOWN)"
proof -
  have "i2c_check_for_quirks q ms 2 \<noteq> 0"
    using too_many_messages [OF assms(2,3), of ms] by (simp add: EOPNOTSUPP_def)
  with assms(1) show ?thesis
    by (auto simp: uu_i2c_transfer_def uu_i2c_check_suspended_def ESHUTDOWN_def EOPNOTSUPP_def
             split: option.splits prod.splits if_splits)
qed

theorem quirk_violation_before_bus_witness:
  "quirks ((example_adapter stuck_xfer)\<lparr>quirks := Some one_msg_quirks\<rparr>) = Some one_msg_quirks \<and>
   quirk_flags one_msg_quirks AND I2C_AQ_COMB = 0 \<and> max_num_msgs one_msg_quirks = 1 \<and>
   uu_i2c_transfer ((example_adapter stuck_xfer)\<lparr>quirks := Some one_msg_quirks\<rparr>)
     (Some [write_msg, write_msg]) 2 boot =
     (- EOPNOTSUPP, (example_adapter stuck_xfer)\<lparr>quirks := Some one_msg_quirks\<rparr>, boot, [])"
proof -
  let ?adap = "(example_adapter stuck_xfer)\<lparr>quirks := Some one_msg_quirks\<rparr>"
  have h: "quirks ?adap = Some one_msg_quirks" "quirk_flags one_msg_quirks AND I2C_AQ_COMB = 0"
    "max_num_msgs one_msg_quirks = 1"
    by (simp_all add: example_defs)
  have "\<not> bit (locked_flags ?adap) I2C_ALF_IS_SUSPENDED"
    by (simp add: example_defs)
  with quirk_violation_before_bus [OF h, where ms = "[write_msg, write_msg]" and k = boot]
  have "fst (uu_i2c_transfer ?adap (Some [write_msg, write_msg]) 2 boot) = - EOPNOTSUPP"
    by (auto split: prod.splits)
  moreover have "snd (uu_i2c_transfer ?adap (Some [write_msg, write_msg]) 2 boot) = (?adap, boot, [])"
    by (simp add: example_defs uu_i2c_transfer_def uu_i2c_check_suspended_def
        i2c_check_for_quirks_def i2c_quirk_exceeded_def i2c_quirk_error_def EOPNOTSUPP_def
        I2C_AQ_COMB_def)
  ultimately show ?thesis
    using h by (simp add: prod_eq_iff)
qed

section \<open>Preconditions of a transfer\<close>

lemma transfer_suspended:
  assumes "master_xfer (algo adap) = Some xfer" and "1 \<le> num"
    and "bit (locked_flags adap) I2C_ALF_IS_SUSPENDED"
  shows "uu_i2c_transfer adap (Some ms) num k =
           (- ESHUTDOWN,
            adap\<lparr>locked_flags := set_bit I2C_ALF_SUSPEND_REPORTED (locked_flags adap)\<rparr>,
            k,
            if bit (locked_flags adap) I2C_ALF_SUSPEND_REPORTED then [] else [Dev_WARN])"
proof -
  have "bit (locked_flags adap) I2C_ALF_SUSPEND_REPORTED \<Longrightarrow>
        set_bit I2C_ALF_SUSPEND_REPORTED (locked_flags adap) = locked_flags adap"
    by (rule bit_word_eqI) (auto simp: bit_set_bit_iff)
  with assms show ?thesis
    by (simp add: uu_i2c_transfer_def uu_i2c_check_suspended_def ESHUTDOWN_def)
qed

text \<open>
  Claim C4, as stated, fails for a call that fails two of the checks: the first check
  that fails decides. Without a transfer primitive a count of 0 is answered with
  \<^verbatim>\<open>-EOPNOTSUPP\<close>, not \<^verbatim>\<open>-EINVAL\<close>; on an adapter marked suspended a count of
  0 is answered with \<^verbatim>\<open>-EINVAL\<close>, not \<^verbatim>\<open>-ESHUTDOWN\<close>, and nothing is reported
  and the adapter is not marked as reported; and an adapter marked suspended that has
  no transfer primitive answers \<^verbatim>\<open>-EOPNOTSUPP\<close>, without a report.
\<close>

theorem first_failed_check_decides:
  "master_xfer (algo ((example_adapter stuck_xfer)\<lparr>algo := \<lparr>master_xfer = None, master_xfer_atomic = None\<rparr>\<rparr>)) = None \<and>
   uu_i2c_transfer ((example_adapter stuck_xfer)\<lparr>algo := \<lparr>master_xfer = None, master_xfer_atomic = None\<rparr>\<rparr>)
     (Some []) 0 boot =
     (- EOPNOTSUPP, (example_adapter stuck_xfer)\<lparr>algo := \<lparr>master_xfer = None, master_xfer_atomic = None\<rparr>\<rparr>,
      boot, []) \<and>
   - EOPNOTSUPP \<noteq> - EINVAL \<and>
   bit (locked_flags ((example_adapter stuck_xfer)\<lparr>locked_flags := 1\<rparr>)) I2C_ALF_IS_SUSPENDED \<and>
   \<not> bit (locked_flags ((example_adapter stuck_xfer)\<lparr>locked_flags := 1\<rparr>)) I2C_ALF_SUSPEND_REPORTED \<and>
   uu_i2c_transfer ((example_adapter stuck_xfer)\<lparr>locked_flags := 1\<rparr>) (Some []) 0 boot =
     (- EINVAL, (example_adapter stuck_xfer)\<lparr>locked_flags := 1\<rparr>, boot, []) \<and>
   - EINVAL \<noteq> - ESHUTDOWN \<and>
   uu_i2c_transfer ((example_adapter stuck_xfer)\<lparr>algo := \<lparr>master_xfer = None, master_xfer_atomic = None\<rparr>,
                                                  locked_flags := 1\<rparr>) (Some [write_msg]) 1 boot =
     (- EOPNOTSUPP,
      (example_adapter stuck_xfer)\<lparr>algo := \<lparr>master_xfer = None, master_xfer_atomic = None\<rparr>,
                                   locked_flags := 1\<rparr>, boot, []) \<and>
   - EOPNOTSUPP \<noteq> - ESHUTDOWN"
  by (simp add: uu_i2c_transfer_def example_defs errno_defs)

text \<open>
  Claim C4, amended. The checks of \<^verbatim>\<open>__i2c_transfer\<close>, in the order in which the
  claim lists them, each for a call that passes the ones before it: without a transfer
  primitive the result is \<^verbatim>\<open>-EOPNOTSUPP\<close>; with a primitive, and no messages or a
  count below 1, it is \<^verbatim>\<open>-EINVAL\<close>; with a primitive, messages and a count of at
  least 1, on an adapter marked suspended it is \<^verbatim>\<open>-ESHUTDOWN\<close>. The rejection of a
  suspended adapter is reported exactly when it has not been reported before, and every
  later rejection of that adapter is silent and leaves the adapter and the kernel state
  as they are.
\<close>

theorem transfer_preconditions:
  "case uu_i2c_transfer adap msgs num k of
     (ret, adap', k', evs) \<Rightarrow>
       (master_xfer (algo adap) = None \<longrightarrow> ret = - EOPNOTSUPP \<and> evs = []) \<and>
       (master_xfer (algo adap) \<noteq> None \<and> (msgs = None \<or> num < 1) \<longrightarrow>
          ret = - EINVAL \<and> evs = []) \<and>
       (master_xfer (algo adap) \<noteq> None \<and> msgs \<noteq> None \<and> 1 \<le> num \<and>
        bit (locked_flags adap) I2C_ALF_IS_SUSPENDED \<longrightarrow>
          ret = - ESHUTDOWN \<and> k' = k \<and>
          evs = (if bit (locked_flags adap) I2C_ALF_SUSPEND_REPORTED then [] else [Dev_WARN]) \<and>
          (\<forall>msgs2 num2 k2. msgs2 \<noteq> None \<and> 1 \<le> num2 \<longrightarrow>
             (case uu_i2c_transfer adap' msgs2 num2 k2 of
                (ret2, adap2, k2', evs2) \<Rightarrow>
                  ret2 = - ESHUTDOWN \<and> evs2 = [] \<and> adap2 = adap' \<and> k2' = k2)))"
proof (cases "master_xfer (algo adap)")
  case None
  then show ?thesis
    by (simp add: uu_i2c_transfer_def)
next
  case (Some xfer)
  show ?thesis
  proof (cases "msgs = None \<or> num < 1")
    case True
    with Some show ?thesis
      by (auto simp: uu_i2c_transfer_def split: option.splits)
  next
    case False
    then obtain ms where ms: "msgs = Some ms" and num: "1 \<le> num"
      by auto
    show ?thesis
    proof (cases "bit (locked_flags adap) I2C_ALF_IS_SUSPENDED")
      case True
      let ?adap' = "adap\<lparr>locked_flags := set_bit I2C_ALF_SUSPEND_REPORTED (locked_flags adap)\<rparr>"
      have first: "uu_i2c_transfer adap msgs num k =
           (- ESHUTDOWN, ?adap', k,
            if bit (locked_flags adap) I2C_ALF_SUSPEND_REPORTED then [] else [Dev_WARN])"
        unfolding ms using Some num True by (rule transfer_suspended)
      have flags: "bit (locked_flags ?adap') I2C_ALF_IS_SUSPENDED"
        "bit (locked_flags ?adap') I2C_ALF_SUSPEND_REPORTED"
        using True
        by (simp_all add: bit_set_bit_iff I2C_ALF_SUSPEND_REPORTED_def I2C_ALF_IS_SUSPENDED_def)
      have later: "uu_i2c_transfer ?adap' (Some ms2) num2 k2 = (- ESHUTDOWN, ?adap', k2, [])"
        if "1 \<le> num2" for ms2 num2 and k2 :: "'a kernel"
      proof -
        have "master_xfer (algo ?adap') = Some xfer"
          using Some by simp
        from transfer_suspended [OF this that flags(1), of ms2 k2] flags(2)
        have "uu_i2c_transfer ?adap' (Some ms2) num2 k2 =
           (- ESHUTDOWN,
            ?adap'\<lparr>locked_flags := set_bit I2C_ALF_SUSPEND_REPORTED (locked_flags ?adap')\<rparr>,
            k2, [])"
          by simp
        moreover
        have "set_bit I2C_ALF_SUSPEND_REPORTED (locked_flags ?adap') = locked_flags ?adap'"
          by (rule bit_word_eqI) (auto simp: bit_set_bit_iff)
        ultimately show ?thesis
          by simp
      qed
      from first later Some num show ?thesis
        by (auto simp: ms)
    next
      case False
      with Some num show ?thesis
        by (simp add: ms split: prod.splits)
    qed
  qed
qed

theorem transfer_preconditions_witness:
  "uu_i2c_transfer ((example_adapter stuck_xfer)\<lparr>algo := \<lparr>master_xfer = None, master_xfer_atomic = None\<rparr>\<rparr>)
     (Some [write_msg]) 1 boot =
     (- EOPNOTSUPP, (example_adapter stuck_xfer)\<lparr>algo := \<lparr>master_xfer = None, master_xfer_atomic = None\<rparr>\<rparr>,
      boot, []) \<and>
   fst (uu_i2c_transfer (example_adapter stuck_xfer) (Some []) 0 boot) = - EINVAL \<and>
   uu_i2c_transfer ((example_adapter stuck_xfer)\<lparr>locked_flags := 1\<rparr>) (Some [write_msg]) 1 boot =
     (- ESHUTDOWN, (example_adapter stuck_xfer)\<lparr>locked_flags := 3\<rparr>, boot, [Dev_WARN]) \<and>
   uu_i2c_transfer ((example_adapter stuck_xfer)\<lparr>locked_flags := 3\<rparr>) (Some [write_msg]) 1 boot =
     (- ESHUTDOWN, (example_adapter stuck_xfer)\<lparr>locked_flags := 3\<rparr>, boot, [])"
proof -
  let ?none = "(example_adapter stuck_xfer)\<lparr>algo := \<lparr>master_xfer = None, master_xfer_atomic = None\<rparr>\<rparr>"
  let ?susp = "(example_adapter stuck_xfer)\<lparr>locked_flags := 1\<rparr>"
  let ?rep = "(example_adapter stuck_xfer)\<lparr>locked_flags := 3\<rparr>"
  have "fst (uu_i2c_transfer ?none (Some [write_msg]) 1 boot) = - EOPNOTSUPP"
    using transfer_preconditions [where adap = ?none and msgs = "Some [write_msg]" and num = 1 and k = boot]
    by (auto simp: example_defs split: prod.splits)
  moreover have "snd (uu_i2c_transfer ?none (Some [write_msg]) 1 boot) = (?none, boot, [])"
    by (simp add: uu_i2c_transfer_def example_defs)
  moreover have "fst (uu_i2c_transfer (example_adapter stuck_xfer) (Some []) 0 boot) = - EINVAL"
    using transfer_preconditions [where adap = "example_adapter stuck_xfer" and msgs = "Some []" and num = 0 and k = boot]
    by (auto simp: example_defs split: prod.splits)
  moreover have "uu_i2c_transfer ?susp (Some [write_msg]) 1 boot = (- ESHUTDOWN, ?rep, boot, [Dev_WARN])"
    by (simp add: uu_i2c_transfer_def uu_i2c_check_suspended_def example_defs set_bit_eq_or
        ESHUTDOWN_def)
  moreover have "uu_i2c_transfer ?rep (Some [write_msg]) 1 boot = (- ESHUTDOWN, ?rep, boot, [])"
    by (simp add: uu_i2c_transfer_def uu_i2c_check_suspended_def example_defs ESHUTDOWN_def)
  ultimately show ?thesis
    by (simp add: prod_eq_iff)
qed

section \<open>Clock recovery\<close>






end
